theory Spec2Isabelle
  imports Main "HOL-Library.Word" "HOL-Library.Sublist" "HOL-Library.Code_Target_Nat"
begin

section \<open>JavaScript strings\<close>

text \<open>
  A JavaScript string is a sequence of 16-bit code units (UTF-16), and every string
  method of the proxy (\<^verbatim>\<open>startsWith\<close>, \<^verbatim>\<open>trim\<close>, \<^verbatim>\<open>split\<close>, the regular expressions, the URI
  coding functions) works on code units. A literal of the source is written
  \<open>js ''...''\<close>.
\<close>

type_synonym code_unit = "16 word"
type_synonym jsstring = "code_unit list"

definition js :: "string \<Rightarrow> jsstring" where
  "js s = map (\<lambda>c. of_nat (of_char c)) s"

definition startsWith :: "jsstring \<Rightarrow> jsstring \<Rightarrow> bool" where
  "startsWith s p = prefix p s"

definition endsWith :: "jsstring \<Rightarrow> jsstring \<Rightarrow> bool" where
  "endsWith s p = suffix p s"

text \<open>\<^verbatim>\<open>s.includes(p)\<close>: \<open>p\<close> occurs in \<open>s\<close> as a contiguous substring.\<close>

fun includesStr :: "jsstring \<Rightarrow> jsstring \<Rightarrow> bool" where
  "includesStr [] p = (p = [])"
| "includesStr (c # cs) p = (prefix p (c # cs) \<or> includesStr cs p)"

text \<open>\<^verbatim>\<open>s.indexOf(p)\<close> and \<^verbatim>\<open>s.lastIndexOf(p)\<close>: \<open>-1\<close> when \<open>p\<close> does not occur.\<close>

fun indexOf :: "jsstring \<Rightarrow> jsstring \<Rightarrow> int" where
  "indexOf [] p = (if p = [] then 0 else -1)"
| "indexOf (c # cs) p =
     (if prefix p (c # cs) then 0
      else (let r = indexOf cs p in if r < 0 then -1 else r + 1))"

fun lastIndexOf :: "jsstring \<Rightarrow> jsstring \<Rightarrow> int" where
  "lastIndexOf [] p = (if p = [] then 0 else -1)"
| "lastIndexOf (c # cs) p =
     (let r = lastIndexOf cs p in
      if 0 \<le> r then r + 1 else if prefix p (c # cs) then 0 else -1)"

text \<open>\<^verbatim>\<open>s.substring(a, b)\<close> and \<^verbatim>\<open>s.substring(a)\<close>; a negative index counts as 0.\<close>

definition substring :: "jsstring \<Rightarrow> int \<Rightarrow> int \<Rightarrow> jsstring" where
  "substring s a b =
     (let a' = nat (max 0 a); b' = nat (max 0 b)
      in take (max a' b' - min a' b') (drop (min a' b') s))"

definition substringFrom :: "jsstring \<Rightarrow> int \<Rightarrow> jsstring" where
  "substringFrom s a = drop (nat (max 0 a)) s"

text \<open>
  \<^verbatim>\<open>s.trim()\<close> removes the code units of WhiteSpace and LineTerminator from both ends:
  TAB, LF, VT, FF, CR, SP, NBSP, U+1680, U+2000 to U+200A, U+2028, U+2029, U+202F,
  U+205F, U+3000 and U+FEFF.
\<close>

definition isWhiteSpace :: "code_unit \<Rightarrow> bool" where
  "isWhiteSpace c \<longleftrightarrow>
     (9 \<le> c \<and> c \<le> 13) \<or> c = 32 \<or> c = 160 \<or> c = 5760 \<or> (8192 \<le> c \<and> c \<le> 8202) \<or>
     c = 8232 \<or> c = 8233 \<or> c = 8239 \<or> c = 8287 \<or> c = 12288 \<or> c = 65279"

definition trim :: "jsstring \<Rightarrow> jsstring" where
  "trim s = rev (dropWhile isWhiteSpace (rev (dropWhile isWhiteSpace s)))"

text \<open>\<^verbatim>\<open>s.split(sep)\<close> for a separator of one code unit, and \<^verbatim>\<open>xs.join(sep)\<close>.\<close>

fun split :: "code_unit \<Rightarrow> jsstring \<Rightarrow> jsstring list" where
  "split sep [] = [[]]"
| "split sep (c # cs) =
     (if c = sep then [] # split sep cs
      else (case split sep cs of l # ls \<Rightarrow> (c # l) # ls | [] \<Rightarrow> [[c]]))"

fun join :: "jsstring \<Rightarrow> jsstring list \<Rightarrow> jsstring" where
  "join sep [] = []"
| "join sep [l] = l"
| "join sep (l # ls) = l @ sep @ join sep ls"

text \<open>
  The regular expression \<^verbatim>\<open>/^https?:\/\//i\<close>. Without the \<^verbatim>\<open>u\<close> flag, case-insensitive
  matching never identifies a code unit above 127 with an ASCII letter, so the letters
  match exactly their two ASCII cases.
\<close>

definition asciiLower :: "code_unit \<Rightarrow> code_unit" where
  "asciiLower c = (if 65 \<le> c \<and> c \<le> 90 then c + 32 else c)"

definition matchHttp :: "jsstring \<Rightarrow> bool" where
  "matchHttp s =
     (let t = map asciiLower s in prefix (js ''http://'') t \<or> prefix (js ''https://'') t)"

section \<open>Errors\<close>

text \<open>
  The exceptions that the code raises or lets through: the recursion bound of
  \<^verbatim>\<open>processMasterPlaylist\<close>, the error that \<^verbatim>\<open>fetchContentWithType\<close> raises for a failed
  fetch, the \<^verbatim>\<open>URIError\<close> of \<^verbatim>\<open>encodeURIComponent\<close>, and the \<^verbatim>\<open>TypeError\<close> of \<^verbatim>\<open>new URL\<close>. The
  message texts are not modelled.
\<close>

datatype error = RecursionLimitError | FetchError | URIError | TypeError

section \<open>encodeURIComponent and decodeURIComponent\<close>

text \<open>
  Both follow the Encode and Decode operations of ECMAScript, here on the numeric values
  of the code units. A code point is encoded in UTF-8 and every octet written as
  \<^verbatim>\<open>%XX\<close> with upper-case digits, except the unescaped characters
  \<^verbatim>\<open>A-Z a-z 0-9 - _ . ! ~ * ' ( )\<close>, which stand for themselves. Encoding raises a URIError
  at an unpaired surrogate, decoding at a malformed escape or at octets that are not the
  UTF-8 encoding of a code point.
\<close>

definition isUnescaped :: "nat \<Rightarrow> bool" where
  "isUnescaped c \<longleftrightarrow>
     (65 \<le> c \<and> c \<le> 90) \<or> (97 \<le> c \<and> c \<le> 122) \<or> (48 \<le> c \<and> c \<le> 57) \<or>
     c = 45 \<or> c = 95 \<or> c = 46 \<or> c = 33 \<or> c = 126 \<or> c = 42 \<or> c = 39 \<or> c = 40 \<or> c = 41"

definition isLeadSurrogate :: "nat \<Rightarrow> bool" where
  "isLeadSurrogate c \<longleftrightarrow> 55296 \<le> c \<and> c \<le> 56319"

definition isTrailSurrogate :: "nat \<Rightarrow> bool" where
  "isTrailSurrogate c \<longleftrightarrow> 56320 \<le> c \<and> c \<le> 57343"

definition surrogatePair :: "nat \<Rightarrow> nat \<Rightarrow> nat" where
  "surrogatePair lead trail = (lead - 55296) * 1024 + (trail - 56320) + 65536"

definition utf8Encode :: "nat \<Rightarrow> nat list" where
  "utf8Encode cp =
     (if cp < 128 then [cp]
      else if cp < 2048 then [192 + cp div 64, 128 + cp mod 64]
      else if cp < 65536 then [224 + cp div 4096, 128 + (cp div 64) mod 64, 128 + cp mod 64]
      else [240 + cp div 262144, 128 + (cp div 4096) mod 64, 128 + (cp div 64) mod 64,
            128 + cp mod 64])"

definition hexDigit :: "nat \<Rightarrow> nat" where
  "hexDigit d = (if d < 10 then 48 + d else 55 + d)"

definition pctEncode :: "nat \<Rightarrow> nat list" where
  "pctEncode b = [37, hexDigit (b div 16), hexDigit (b mod 16)]"

fun encodeUnits :: "nat list \<Rightarrow> nat list option" where
  "encodeUnits [] = Some []"
| "encodeUnits (c # cs) =
     (if isUnescaped c then map_option (Cons c) (encodeUnits cs)
      else if \<not> isLeadSurrogate c \<and> \<not> isTrailSurrogate c
        then map_option ((@) (concat (map pctEncode (utf8Encode c)))) (encodeUnits cs)
      else if isTrailSurrogate c then None
      else (case cs of
              [] \<Rightarrow> None
            | d # ds \<Rightarrow>
                if \<not> isTrailSurrogate d then None
                else map_option ((@) (concat (map pctEncode (utf8Encode (surrogatePair c d)))))
                       (encodeUnits ds)))"

definition encodeURIComponent :: "jsstring \<Rightarrow> jsstring option" where
  "encodeURIComponent s = map_option (map of_nat) (encodeUnits (map unat s))"

definition hexValue :: "nat \<Rightarrow> nat option" where
  "hexValue h =
     (if 48 \<le> h \<and> h \<le> 57 then Some (h - 48)
      else if 65 \<le> h \<and> h \<le> 70 then Some (h - 55)
      else if 97 \<le> h \<and> h \<le> 102 then Some (h - 87)
      else None)"

definition parseHexOctet :: "nat \<Rightarrow> nat \<Rightarrow> nat option" where
  "parseHexOctet h1 h2 =
     (case hexValue h1 of
        None \<Rightarrow> None
      | Some a \<Rightarrow> (case hexValue h2 of None \<Rightarrow> None | Some b \<Rightarrow> Some (16 * a + b)))"

text \<open>The number of leading 1 bits of an octet (5 stands for five or more).\<close>

definition leadingOnes :: "nat \<Rightarrow> nat" where
  "leadingOnes b =
     (if b < 128 then 0 else if b < 192 then 1 else if b < 224 then 2
      else if b < 240 then 3 else if b < 248 then 4 else 5)"

definition isContinuation :: "nat \<Rightarrow> bool" where
  "isContinuation b \<longleftrightarrow> 128 \<le> b \<and> b < 192"

text \<open>
  The code point of a well-formed UTF-8 sequence of two to four octets: the continuation
  octets are in \<^verbatim>\<open>80..BF\<close>, and the value is not overlong, not a surrogate and at most
  \<^verbatim>\<open>10FFFF\<close>.
\<close>

definition utf8Decode :: "nat list \<Rightarrow> nat option" where
  "utf8Decode octs =
     (case octs of
        [b0, b1] \<Rightarrow>
          (let v = (b0 mod 32) * 64 + b1 mod 64
           in if isContinuation b1 \<and> 128 \<le> v then Some v else None)
      | [b0, b1, b2] \<Rightarrow>
          (let v = (b0 mod 16) * 4096 + (b1 mod 64) * 64 + b2 mod 64
           in if isContinuation b1 \<and> isContinuation b2 \<and> 2048 \<le> v \<and>
                 \<not> (55296 \<le> v \<and> v \<le> 57343) then Some v else None)
      | [b0, b1, b2, b3] \<Rightarrow>
          (let v = (b0 mod 8) * 262144 + (b1 mod 64) * 4096 + (b2 mod 64) * 64 + b3 mod 64
           in if isContinuation b1 \<and> isContinuation b2 \<and> isContinuation b3 \<and>
                 65536 \<le> v \<and> v \<le> 1114111 then Some v else None)
      | _ \<Rightarrow> None)"

definition utf16Encode :: "nat \<Rightarrow> nat list" where
  "utf16Encode cp =
     (if cp < 65536 then [cp]
      else [(cp - 65536) div 1024 + 55296, (cp - 65536) mod 1024 + 56320])"

text \<open>
  The Decode loop. \<open>decodeUnits octs j s\<close> reads \<open>s\<close>; \<open>j\<close> is the number of continuation
  octets still to read for the current code point and \<open>octs\<close> the octets read for it so
  far (\<open>j = 0\<close> between code points).
\<close>

fun decodeUnits :: "nat list \<Rightarrow> nat \<Rightarrow> nat list \<Rightarrow> nat list option" where
  "decodeUnits octs j [] = (if j = 0 then Some [] else None)"
| "decodeUnits octs j (c # cs) =
     (if j = 0
      then (if c \<noteq> 37 then map_option (Cons c) (decodeUnits [] 0 cs)
            else (case cs of
                    h1 # h2 # rest \<Rightarrow>
                      (case parseHexOctet h1 h2 of
                         None \<Rightarrow> None
                       | Some b \<Rightarrow>
                           (let n = leadingOnes b in
                            if n = 0 then map_option (Cons b) (decodeUnits [] 0 rest)
                            else if n = 1 \<or> 4 < n then None
                            else decodeUnits [b] (n - 1) rest))
                  | _ \<Rightarrow> None))
      else (case cs of
              h1 # h2 # rest \<Rightarrow>
                if c \<noteq> 37 then None
                else (case parseHexOctet h1 h2 of
                        None \<Rightarrow> None
                      | Some b \<Rightarrow>
                          if j = 1
                          then (case utf8Decode (octs @ [b]) of
                                  None \<Rightarrow> None
                                | Some v \<Rightarrow>
                                    map_option ((@) (utf16Encode v)) (decodeUnits [] 0 rest))
                          else decodeUnits (octs @ [b]) (j - 1) rest)
            | _ \<Rightarrow> None))"

definition decodeURIComponent :: "jsstring \<Rightarrow> jsstring option" where
  "decodeURIComponent s = map_option (map of_nat) (decodeUnits [] 0 (map unat s))"

text \<open>\<^verbatim>\<open>String.prototype.isWellFormed\<close>: the string has no unpaired surrogate.\<close>

fun wellFormedUnits :: "nat list \<Rightarrow> bool" where
  "wellFormedUnits [] = True"
| "wellFormedUnits (c # cs) =
     (if \<not> isLeadSurrogate c \<and> \<not> isTrailSurrogate c then wellFormedUnits cs
      else if isTrailSurrogate c then False
      else (case cs of [] \<Rightarrow> False | d # ds \<Rightarrow> isTrailSurrogate d \<and> wellFormedUnits ds))"

definition isWellFormed :: "jsstring \<Rightarrow> bool" where
  "isWellFormed s = wellFormedUnits (map unat s)"

section \<open>The proxy path of a target URL\<close>

text \<open>
  \<^verbatim>\<open>getTargetUrlFromPath\<close>: \<open>None\<close> is the source's \<^verbatim>\<open>null\<close>. The \<^verbatim>\<open>catch\<close> block of the
  source returns \<^verbatim>\<open>null\<close> when \<^verbatim>\<open>decodeURIComponent\<close> raises.
\<close>

definition getTargetUrlFromPath :: "jsstring \<Rightarrow> jsstring option" where
  "getTargetUrlFromPath encodedPath =
     (if encodedPath = [] then None
      else (case decodeURIComponent encodedPath of
              None \<Rightarrow> None
            | Some decodedUrl \<Rightarrow>
                if \<not> matchHttp decodedUrl
                then (if matchHttp encodedPath then Some encodedPath else None)
                else Some decodedUrl))"

text \<open>
  \<^verbatim>\<open>rewriteUrlToProxy\<close>, with the mount prefix \<^verbatim>\<open>/api/proxy/\<close>. The URIError of
  \<^verbatim>\<open>encodeURIComponent\<close> is not caught by the source.
\<close>

definition rewriteUrlToProxy :: "jsstring \<Rightarrow> error + jsstring" where
  "rewriteUrlToProxy targetUrl =
     (if targetUrl = [] then Inr []
      else (case encodeURIComponent targetUrl of
              None \<Rightarrow> Inl URIError
            | Some e \<Rightarrow> Inr (js ''/api/proxy/'' @ e)))"

section \<open>The platform: URL objects, transport, randomness\<close>

text \<open>
  The \<^verbatim>\<open>URL\<close> class, \<^verbatim>\<open>fetch\<close> and \<^verbatim>\<open>Math.random\<close> belong to the platform, not to the
  proxy; every function that uses one of them takes it as a parameter.

  \<open>U input None\<close> is \<^verbatim>\<open>new URL(input)\<close> and \<open>U input (Some base)\<close> is
  \<^verbatim>\<open>new URL(input, base)\<close>; the result \<open>None\<close> is the TypeError of an input that does not
  parse. Of a URL object the code reads \<^verbatim>\<open>origin\<close>, \<^verbatim>\<open>pathname\<close> and \<^verbatim>\<open>toString()\<close>, which is
  \<^verbatim>\<open>href\<close>.
\<close>

record url =
  href :: jsstring
  origin :: jsstring
  pathname :: jsstring

type_synonym url_ctor = "jsstring \<Rightarrow> jsstring option \<Rightarrow> url option"

text \<open>
  An outbound request as \<^verbatim>\<open>fetchContentWithType\<close> builds it, and what the code reads of
  its response: \<^verbatim>\<open>response.ok\<close>, \<^verbatim>\<open>response.text()\<close> (\<open>None\<close> when reading the body fails)
  and the \<^verbatim>\<open>content-type\<close> header (\<open>None\<close> when absent).
\<close>

record request =
  req_url :: jsstring
  user_agent :: jsstring
  accept :: jsstring
  accept_language :: jsstring
  referer :: jsstring

record response =
  ok :: bool
  body :: "jsstring option"
  content_type :: "jsstring option"

text \<open>
  The world outside: \<open>transport W n req\<close> is the outcome of the request \<open>req\<close> when it is
  the \<open>n\<close>-th fetch of the inbound request (\<open>None\<close>: the transport fails, \<^verbatim>\<open>fetch\<close>
  rejects), and \<open>random W n\<close> decides the draw of \<^verbatim>\<open>Math.random\<close> made for that fetch.
  The functions that fetch pass on the list of the requests sent so far.
\<close>

record world =
  transport :: "nat \<Rightarrow> request \<Rightarrow> response option"
  random :: "nat \<Rightarrow> nat"

type_synonym headers = "string \<Rightarrow> jsstring option"

section \<open>URL resolution\<close>

definition getBaseUrl :: "url_ctor \<Rightarrow> jsstring \<Rightarrow> jsstring" where
  "getBaseUrl U urlStr =
     (if urlStr = [] then []
      else (case U urlStr None of
              Some parsedUrl \<Rightarrow>
                if pathname parsedUrl = [] \<or> pathname parsedUrl = js ''/''
                then origin parsedUrl @ js ''/''
                else (let pathParts = butlast (split 47 (pathname parsedUrl))
                      in origin parsedUrl @ join (js ''/'') pathParts @ js ''/'')
            | None \<Rightarrow>
                (let lastSlashIndex = lastIndexOf urlStr (js ''/'')
                 in if indexOf urlStr (js ''://'') + 2 < lastSlashIndex
                    then substring urlStr 0 (lastSlashIndex + 1)
                    else urlStr @ js ''/'')))"

definition resolveUrl :: "url_ctor \<Rightarrow> jsstring \<Rightarrow> jsstring \<Rightarrow> jsstring" where
  "resolveUrl U baseUrl relativeUrl =
     (if baseUrl = [] \<or> relativeUrl = [] then relativeUrl
      else if matchHttp relativeUrl then relativeUrl
      else (case U relativeUrl (Some baseUrl) of
              Some resolved \<Rightarrow> href resolved
            | None \<Rightarrow>
                if startsWith relativeUrl (js ''/'')
                then (case U baseUrl None of
                        Some urlObj \<Rightarrow> origin urlObj @ relativeUrl
                      | None \<Rightarrow> relativeUrl)
                else (let baseEndsWithSlash = endsWith baseUrl (js ''/'');
                          relStartsWithSlash = startsWith relativeUrl (js ''/'')
                      in if baseEndsWithSlash \<and> relStartsWithSlash
                         then baseUrl @ substringFrom relativeUrl 1
                         else if \<not> baseEndsWithSlash \<and> \<not> relStartsWithSlash
                         then substring baseUrl 0 (lastIndexOf baseUrl (js ''/'') + 1)
                                @ relativeUrl
                         else baseUrl @ relativeUrl)))"

section \<open>Fetching\<close>

definition defaultUserAgent :: jsstring where
  "defaultUserAgent =
     js (''Mozilla/5.0 (Windows NT 10.0; Win64; x64) AppleWebKit/537.36 '' @
         ''(KHTML, like Gecko) Chrome/120.0.0.0 Safari/537.36'')"

definition defaultAcceptLanguage :: jsstring where
  "defaultAcceptLanguage = js ''zh-CN,zh;q=0.9,en;q=0.8''"

text \<open>
  \<^verbatim>\<open>agents[Math.floor(Math.random() * agents.length)]\<close> is some element of a non-empty
  \<open>agents\<close>; the number \<open>r\<close> decides which.
\<close>

definition getRandomUserAgent :: "nat \<Rightarrow> jsstring list \<Rightarrow> jsstring" where
  "getRandomUserAgent r agents =
     (if agents = [] then defaultUserAgent else agents ! (r mod length agents))"

text \<open>\<^verbatim>\<open>h[name] || dflt\<close>: an absent and an empty header both give the default.\<close>

definition headerOr :: "headers \<Rightarrow> string \<Rightarrow> jsstring \<Rightarrow> jsstring" where
  "headerOr h name dflt = (case h name of None \<Rightarrow> dflt | Some v \<Rightarrow> if v = [] then dflt else v)"

text \<open>
  \<^verbatim>\<open>fetchContentWithType\<close>. The header object is built before the \<^verbatim>\<open>try\<close> block, so the
  TypeError of \<^verbatim>\<open>new URL(targetUrl)\<close> (evaluated only when no referer is forwarded)
  leaves the function before any request is sent. Inside the \<^verbatim>\<open>try\<close> block every failure
  (the transport, a status that is not ok, the body) ends in the error of the \<^verbatim>\<open>catch\<close>.
\<close>

definition fetchContentWithType ::
  "url_ctor \<Rightarrow> world \<Rightarrow> jsstring \<Rightarrow> headers \<Rightarrow> jsstring list \<Rightarrow> request list \<Rightarrow>
     (error + jsstring \<times> jsstring) \<times> request list" where
  "fetchContentWithType U W targetUrl requestHeaders userAgents sent =
     (let ua = getRandomUserAgent (random W (length sent)) userAgents;
          al = headerOr requestHeaders ''accept-language'' defaultAcceptLanguage
      in case (if headerOr requestHeaders ''referer'' [] \<noteq> []
               then Some (headerOr requestHeaders ''referer'' [])
               else map_option origin (U targetUrl None)) of
           None \<Rightarrow> (Inl TypeError, sent)
         | Some ref \<Rightarrow>
             (let req = \<lparr>req_url = targetUrl, user_agent = ua, accept = js ''*/*'',
                         accept_language = al, referer = ref\<rparr>;
                  sent' = sent @ [req]
              in case transport W (length sent) req of
                   None \<Rightarrow> (Inl FetchError, sent')
                 | Some resp \<Rightarrow>
                     if \<not> ok resp then (Inl FetchError, sent')
                     else (case body resp of
                             None \<Rightarrow> (Inl FetchError, sent')
                           | Some content \<Rightarrow>
                               (Inr (content,
                                     case content_type resp of None \<Rightarrow> [] | Some ct \<Rightarrow> ct),
                                sent'))))"

definition isM3u8Content :: "jsstring \<Rightarrow> jsstring \<Rightarrow> bool" where
  "isM3u8Content content contentType =
     (if contentType \<noteq> [] \<and>
         (includesStr contentType (js ''application/vnd.apple.mpegurl'') \<or>
          includesStr contentType (js ''application/x-mpegurl'') \<or>
          includesStr contentType (js ''audio/mpegurl''))
      then True
      else content \<noteq> [] \<and> startsWith (trim content) (js ''#EXTM3U''))"

section \<open>Media playlists\<close>

text \<open>
  The leftmost match of \<^verbatim>\<open>/URI="([^"]+)"/\<close> in a line, as the text before the match, the
  captured value and the text after the match. The class \<^verbatim>\<open>[^"]+\<close> is greedy, so the value
  runs up to the next quote (code unit 34), which must exist.
\<close>

fun matchUriAttr :: "jsstring \<Rightarrow> (jsstring \<times> jsstring \<times> jsstring) option" where
  "matchUriAttr [] = None"
| "matchUriAttr (c # cs) =
     (let rest = drop 5 (c # cs);
          uri = takeWhile (\<lambda>x. x \<noteq> 34) rest;
          after = dropWhile (\<lambda>x. x \<noteq> 34) rest
      in if prefix (js ''URI='' @ [34]) (c # cs) \<and> uri \<noteq> [] \<and> after \<noteq> []
         then Some ([], uri, tl after)
         else map_option (\<lambda>(before, u, a). (c # before, u, a)) (matchUriAttr cs))"

definition processKeyLine :: "url_ctor \<Rightarrow> jsstring \<Rightarrow> jsstring \<Rightarrow> error + jsstring" where
  "processKeyLine U line baseUrl =
     (case matchUriAttr line of
        None \<Rightarrow> Inr line
      | Some (before, uri, after) \<Rightarrow>
          (let absoluteUri = resolveUrl U baseUrl uri
           in case rewriteUrlToProxy absoluteUri of
                Inl e \<Rightarrow> Inl e
              | Inr p \<Rightarrow> Inr (before @ js ''URI='' @ [34] @ p @ [34] @ after)))"

definition processMapLine :: "url_ctor \<Rightarrow> jsstring \<Rightarrow> jsstring \<Rightarrow> error + jsstring" where
  "processMapLine U line baseUrl =
     (case matchUriAttr line of
        None \<Rightarrow> Inr line
      | Some (before, uri, after) \<Rightarrow>
          (let absoluteUri = resolveUrl U baseUrl uri
           in case rewriteUrlToProxy absoluteUri of
                Inl e \<Rightarrow> Inl e
              | Inr p \<Rightarrow> Inr (before @ js ''URI='' @ [34] @ p @ [34] @ after)))"

text \<open>
  The body of the loop of \<^verbatim>\<open>processMediaPlaylist\<close> for a trimmed line that is not empty:
  what the iteration pushes to \<^verbatim>\<open>output\<close>.
\<close>

definition mediaLine :: "url_ctor \<Rightarrow> jsstring \<Rightarrow> jsstring \<Rightarrow> error + jsstring" where
  "mediaLine U baseUrl line =
     (if startsWith line (js ''#EXT-X-KEY'') then processKeyLine U line baseUrl
      else if startsWith line (js ''#EXT-X-MAP'') then processMapLine U line baseUrl
      else if startsWith line (js ''#EXTINF'') then Inr line
      else if \<not> startsWith line (js ''#'')
        then (let absoluteUrl = resolveUrl U baseUrl line in rewriteUrlToProxy absoluteUrl)
      else Inr line)"

text \<open>
  The loop over the lines; the list is \<^verbatim>\<open>lines\<close> from index \<^verbatim>\<open>i\<close> on, so the last line is
  the one with nothing after it. The result is the array \<^verbatim>\<open>output\<close>.
\<close>

fun mediaLines :: "url_ctor \<Rightarrow> jsstring \<Rightarrow> jsstring list \<Rightarrow> error + jsstring list" where
  "mediaLines U baseUrl [] = Inr []"
| "mediaLines U baseUrl (l # ls) =
     (let line = trim l in
      if line = [] \<and> ls = [] then Inr [line]
      else if line = [] then mediaLines U baseUrl ls
      else (case mediaLine U baseUrl line of
              Inl e \<Rightarrow> Inl e
            | Inr out \<Rightarrow>
                (case mediaLines U baseUrl ls of
                   Inl e \<Rightarrow> Inl e
                 | Inr output \<Rightarrow> Inr (out # output))))"

definition processMediaPlaylist :: "url_ctor \<Rightarrow> jsstring \<Rightarrow> jsstring \<Rightarrow> error + jsstring" where
  "processMediaPlaylist U url content =
     (let baseUrl = getBaseUrl U url;
          lines = split 10 content
      in case mediaLines U baseUrl lines of
           Inl e \<Rightarrow> Inl e
         | Inr output \<Rightarrow> Inr (join [10] output))"

section \<open>Master playlists\<close>

text \<open>
  JavaScript numbers. \<^verbatim>\<open>parseInt\<close> of a string of decimal digits returns the Number value
  for the integer that the digits denote: the IEEE 754 double nearest to it, ties to
  even (\<open>2^53 + 1\<close> becomes \<open>2^53\<close>), and \<^verbatim>\<open>+Infinity\<close> from \<open>2^1024 - 2^970\<close> on. Every such
  number is an integer or \<^verbatim>\<open>+Infinity\<close>; the model keeps an integer as it is and stands
  \<open>2^1024\<close>, above every finite double, for \<^verbatim>\<open>+Infinity\<close>, so that the order of the numbers
  is the order of the integers. (For more than 20 significant digits ECMAScript lets an
  implementation zero the digits after the 20th before rounding; V8 rounds the exact
  value, as here.)
\<close>

function intBits :: "int \<Rightarrow> nat" where
  "intBits n = (if n \<le> 0 then 0 else Suc (intBits (n div 2)))"
  by pat_completeness auto
termination
  by (relation "measure nat") auto

declare intBits.simps [simp del]

definition toNumber :: "int \<Rightarrow> int" where
  "toNumber n =
     (if n < 2 ^ 53 then n
      else (let k = intBits n - 53;
                q = n div 2 ^ k;
                r = n mod 2 ^ k;
                q' = (if 2 ^ k < 2 * r \<or> (2 * r = 2 ^ k \<and> odd q) then q + 1 else q);
                v = q' * 2 ^ k
            in if 2 ^ 1024 \<le> v then 2 ^ 1024 else v))"

text \<open>
  The leftmost match of \<^verbatim>\<open>/BANDWIDTH=(\d+)/\<close> in a line: the captured digits, and
  \<^verbatim>\<open>parseInt(digits, 10)\<close>.
\<close>

definition isDigit :: "code_unit \<Rightarrow> bool" where
  "isDigit c \<longleftrightarrow> 48 \<le> c \<and> c \<le> 57"

fun bandwidthMatch :: "jsstring \<Rightarrow> jsstring option" where
  "bandwidthMatch [] = None"
| "bandwidthMatch (c # cs) =
     (let digits = takeWhile isDigit (drop 10 (c # cs))
      in if prefix (js ''BANDWIDTH='') (c # cs) \<and> digits \<noteq> [] then Some digits
         else bandwidthMatch cs)"

definition decimalValue :: "jsstring \<Rightarrow> int" where
  "decimalValue digits = foldl (\<lambda>n d. 10 * n + (uint d - 48)) 0 digits"

definition parseInt :: "jsstring \<Rightarrow> int" where
  "parseInt digits = toNumber (decimalValue digits)"

definition currentBandwidth :: "jsstring \<Rightarrow> int" where
  "currentBandwidth line =
     (case bandwidthMatch line of Some digits \<Rightarrow> parseInt digits | None \<Rightarrow> 0)"

text \<open>
  The inner loop over \<^verbatim>\<open>j\<close>: the first line after the tag that, trimmed, is not empty and
  does not start with \<^verbatim>\<open>#\<close>, together with the lines after it, where the outer loop goes
  on (\<^verbatim>\<open>i = j\<close>).
\<close>

fun findVariantUriLine :: "jsstring list \<Rightarrow> (jsstring \<times> jsstring list) option" where
  "findVariantUriLine [] = None"
| "findVariantUriLine (l # ls) =
     (let line = trim l in
      if line \<noteq> [] \<and> \<not> startsWith line (js ''#'') then Some (line, ls)
      else findVariantUriLine ls)"

lemma findVariantUriLine_length:
  "findVariantUriLine ls = Some (line, rest) \<Longrightarrow> length rest < length ls"
  by (induction ls) (auto simp: Let_def split: if_splits)

text \<open>
  The outer loop, on the lines from index \<^verbatim>\<open>i\<close> on, with the variables
  \<^verbatim>\<open>highestBandwidth\<close> and \<^verbatim>\<open>bestVariantUrl\<close>.
\<close>

function selectVariant ::
  "url_ctor \<Rightarrow> jsstring \<Rightarrow> jsstring list \<Rightarrow> int \<Rightarrow> jsstring \<Rightarrow> int \<times> jsstring" where
  "selectVariant U baseUrl [] highestBandwidth bestVariantUrl =
     (highestBandwidth, bestVariantUrl)"
| "selectVariant U baseUrl (l # ls) highestBandwidth bestVariantUrl =
     (if startsWith l (js ''#EXT-X-STREAM-INF'')
      then (case findVariantUriLine ls of
              None \<Rightarrow> selectVariant U baseUrl ls highestBandwidth bestVariantUrl
            | Some (variantUriLine, rest) \<Rightarrow>
                if highestBandwidth \<le> currentBandwidth l
                then selectVariant U baseUrl rest (currentBandwidth l)
                       (resolveUrl U baseUrl variantUriLine)
                else selectVariant U baseUrl rest highestBandwidth bestVariantUrl)
      else selectVariant U baseUrl ls highestBandwidth bestVariantUrl)"
  by pat_completeness auto
termination
  by (relation "measure (\<lambda>(U, baseUrl, ls, h, b). length ls)")
     (auto dest: findVariantUriLine_length)

text \<open>
  The fallback loop: the first line that, trimmed, is not empty, does not start with
  \<^verbatim>\<open>#\<close> and ends in \<^verbatim>\<open>.m3u8\<close> or contains \<^verbatim>\<open>.m3u8?\<close>.
\<close>

fun firstSubPlaylistLine :: "jsstring list \<Rightarrow> jsstring option" where
  "firstSubPlaylistLine [] = None"
| "firstSubPlaylistLine (l # ls) =
     (let line = trim l in
      if line \<noteq> [] \<and> \<not> startsWith line (js ''#'') \<and>
         (endsWith line (js ''.m3u8'') \<or> includesStr line (js ''.m3u8?''))
      then Some line
      else firstSubPlaylistLine ls)"

text \<open>
  The value of \<^verbatim>\<open>bestVariantUrl\<close> after the two loops of \<^verbatim>\<open>processMasterPlaylist\<close>; empty
  when the playlist names no variant.
\<close>

definition selectBestVariantUrl :: "url_ctor \<Rightarrow> jsstring \<Rightarrow> jsstring \<Rightarrow> jsstring" where
  "selectBestVariantUrl U url content =
     (let baseUrl = getBaseUrl U url;
          lines = split 10 content;
          bestVariantUrl = snd (selectVariant U baseUrl lines (- 1) [])
      in if bestVariantUrl = []
         then (case firstSubPlaylistLine lines of
                 Some line \<Rightarrow> resolveUrl U baseUrl line
               | None \<Rightarrow> [])
         else bestVariantUrl)"

text \<open>
  \<^verbatim>\<open>processM3u8Content\<close> and \<^verbatim>\<open>processMasterPlaylist\<close> call each other. The argument
  \<open>userAgents\<close> is \<^verbatim>\<open>env.USER_AGENTS\<close>; \<open>maxRecursion\<close> is an integer (the \<^verbatim>\<open>NaN\<close> that
  \<^verbatim>\<open>parseInt\<close> gives for a setting that is not a number is outside the model). The variant
  is fetched with the empty header object \<^verbatim>\<open>{}\<close>.
\<close>

function processM3u8Content ::
    "url_ctor \<Rightarrow> world \<Rightarrow> jsstring \<Rightarrow> jsstring \<Rightarrow> int \<Rightarrow> int \<Rightarrow> jsstring list \<Rightarrow> request list \<Rightarrow>
       (error + jsstring) \<times> request list"
  and processMasterPlaylist ::
    "url_ctor \<Rightarrow> world \<Rightarrow> jsstring \<Rightarrow> jsstring \<Rightarrow> int \<Rightarrow> int \<Rightarrow> jsstring list \<Rightarrow> request list \<Rightarrow>
       (error + jsstring) \<times> request list"
  where
  "processM3u8Content U W targetUrl content recursionDepth maxRecursion userAgents sent =
     (if includesStr content (js ''#EXT-X-STREAM-INF'') \<or> includesStr content (js ''#EXT-X-MEDIA:'')
      then processMasterPlaylist U W targetUrl content recursionDepth maxRecursion userAgents sent
      else (processMediaPlaylist U targetUrl content, sent))"
| "processMasterPlaylist U W url content recursionDepth maxRecursion userAgents sent =
     (if maxRecursion < recursionDepth then (Inl RecursionLimitError, sent)
      else (let bestVariantUrl = selectBestVariantUrl U url content
            in if bestVariantUrl = [] then (processMediaPlaylist U url content, sent)
               else (case fetchContentWithType U W bestVariantUrl (\<lambda>name. None) userAgents sent of
                       (Inl e, sent') \<Rightarrow> (Inl e, sent')
                     | (Inr (variantContent, variantContentType), sent') \<Rightarrow>
                         if \<not> isM3u8Content variantContent variantContentType
                         then (processMediaPlaylist U bestVariantUrl variantContent, sent')
                         else processM3u8Content U W bestVariantUrl variantContent
                                (recursionDepth + 1) maxRecursion userAgents sent')))"
  by pat_completeness auto
termination
  by (relation "measure (\<lambda>x. case x of
          Inl (U, W, t, c, d, m, a, s) \<Rightarrow> 2 * nat (m + 1 - d) + 1
        | Inr (U, W, t, c, d, m, a, s) \<Rightarrow> 2 * nat (m + 1 - d))")
     auto

section \<open>The request handler\<close>

text \<open>
  The handler of the Vercel function, as far as the proxy logic goes: the reply is the
  kind of response and its body (the response headers are not modelled), together with
  the requests sent. \<open>MAX_RECURSION\<close> and \<open>USER_AGENTS\<close> are the values that the handler
  reads from the environment; \<open>encodedUrlPath\<close> is the joined path parameter.
\<close>

datatype reply =
    Preflight
  | BadRequest
  | Playlist jsstring
  | Passthrough jsstring
  | ServerError error

definition handler ::
  "url_ctor \<Rightarrow> world \<Rightarrow> int \<Rightarrow> jsstring list \<Rightarrow> jsstring \<Rightarrow> jsstring \<Rightarrow> headers \<Rightarrow>
     reply \<times> request list" where
  "handler U W MAX_RECURSION USER_AGENTS method encodedUrlPath reqHeaders =
     (if method = js ''OPTIONS'' then (Preflight, [])
      else (case getTargetUrlFromPath encodedUrlPath of
              None \<Rightarrow> (BadRequest, [])
            | Some targetUrl \<Rightarrow>
                (case fetchContentWithType U W targetUrl reqHeaders USER_AGENTS [] of
                   (Inl e, sent) \<Rightarrow> (ServerError e, sent)
                 | (Inr (content, contentType), sent) \<Rightarrow>
                     if isM3u8Content content contentType
                     then (case processM3u8Content U W targetUrl content 0 MAX_RECURSION
                                  USER_AGENTS sent of
                             (Inl e, sent') \<Rightarrow> (ServerError e, sent')
                           | (Inr processedM3u8, sent') \<Rightarrow> (Playlist processedM3u8, sent'))
                     else (Passthrough content, sent))))"

section \<open>A reference URL implementation\<close>

text \<open>
  The theorems below that speak of every URL implementation \<open>U\<close> hold whatever the
  platform does. The closed examples need one implementation to run: \<open>refURL\<close> follows
  the URL Standard on the inputs it accepts, and those are

    \<^item> absolute URLs \<^verbatim>\<open>scheme://host/path\<close> with the scheme \<^verbatim>\<open>http\<close>, \<^verbatim>\<open>https\<close> or \<^verbatim>\<open>ftp\<close> in
      lower case, a host of lower-case letters in labels separated by single dots, and
      no port, credentials, query or fragment;
    \<^item> references resolved against such a base: with a scheme (as above), with an
      authority (\<^verbatim>\<open>//host/path\<close>), with an absolute path (\<^verbatim>\<open>/path\<close>) or with a relative
      path;
    \<^item> paths of letters, digits and \<^verbatim>\<open>- . _ ~ % ! $ & ' ( ) * + , ; = : @\<close>, none of which
      the Standard escapes in a path, with the dot segments \<^verbatim>\<open>.\<close> and \<^verbatim>\<open>..\<close> (also written
      with \<^verbatim>\<open>%2e\<close>) resolved.

  It returns \<open>None\<close> on every other input, although the Standard accepts many of them.
\<close>

definition isAlpha :: "code_unit \<Rightarrow> bool" where
  "isAlpha c \<longleftrightarrow> (65 \<le> c \<and> c \<le> 90) \<or> (97 \<le> c \<and> c \<le> 122)"

definition isPathChar :: "code_unit \<Rightarrow> bool" where
  "isPathChar c \<longleftrightarrow> isAlpha c \<or> isDigit c \<or> c \<in> set (js ''-._~%!$&()*+,;=:@'') \<or> c = 39"

definition isSingleDot :: "jsstring \<Rightarrow> bool" where
  "isSingleDot seg \<longleftrightarrow> map asciiLower seg \<in> {js ''.'', js ''%2e''}"

definition isDoubleDot :: "jsstring \<Rightarrow> bool" where
  "isDoubleDot seg \<longleftrightarrow>
     map asciiLower seg \<in> {js ''..'', js ''.%2e'', js ''%2e.'', js ''%2e%2e''}"

text \<open>
  The path state of the parser: \<open>path\<close> is the path so far, the second list the segments
  still to read. A double-dot segment shortens the path, a dot segment at the end leaves
  an empty last segment.
\<close>

fun pathState :: "jsstring list \<Rightarrow> jsstring list \<Rightarrow> jsstring list" where
  "pathState path [] = path"
| "pathState path (seg # segs) =
     (if isDoubleDot seg
        then pathState (if segs = [] then butlast path @ [[]] else butlast path) segs
      else if isSingleDot seg
        then pathState (if segs = [] then path @ [[]] else path) segs
      else pathState (path @ [seg]) segs)"

definition validHost :: "jsstring \<Rightarrow> bool" where
  "validHost h \<longleftrightarrow>
     h \<noteq> [] \<and> (\<forall>l \<in> set (split 46 h). l \<noteq> [] \<and> (\<forall>c \<in> set l. 97 \<le> c \<and> c \<le> 122))"

text \<open>A parsed URL of the fragment: scheme, host and path segments.\<close>

type_synonym ref_url = "jsstring \<times> jsstring \<times> jsstring list"

definition parseAuthority :: "jsstring \<Rightarrow> jsstring \<Rightarrow> ref_url option" where
  "parseAuthority scheme s =
     (let host = takeWhile (\<lambda>c. c \<noteq> 47) s;
          rest = dropWhile (\<lambda>c. c \<noteq> 47) s
      in if validHost host then Some (scheme, host, pathState [] (split 47 (drop 1 rest)))
         else None)"

definition parseAbsolute :: "jsstring \<Rightarrow> ref_url option" where
  "parseAbsolute s =
     (if prefix (js ''http://'') s then parseAuthority (js ''http'') (drop 7 s)
      else if prefix (js ''https://'') s then parseAuthority (js ''https'') (drop 8 s)
      else if prefix (js ''ftp://'') s then parseAuthority (js ''ftp'') (drop 6 s)
      else None)"

text \<open>The input starts with a scheme: a letter, then letters, digits, \<^verbatim>\<open>+ - .\<close>, then a colon.\<close>

definition hasScheme :: "jsstring \<Rightarrow> bool" where
  "hasScheme s \<longleftrightarrow>
     (case s of
        [] \<Rightarrow> False
      | c # cs \<Rightarrow>
          isAlpha c \<and>
          (case dropWhile (\<lambda>x. isAlpha x \<or> isDigit x \<or> x = 43 \<or> x = 45 \<or> x = 46) cs of
             [] \<Rightarrow> False
           | d # ds \<Rightarrow> d = 58))"

definition serialize :: "ref_url \<Rightarrow> url" where
  "serialize u =
     (case u of (scheme, host, path) \<Rightarrow>
        \<lparr>href = scheme @ js ''://'' @ host @ concat (map (\<lambda>seg. 47 # seg) path),
         origin = scheme @ js ''://'' @ host,
         pathname = concat (map (\<lambda>seg. 47 # seg) path)\<rparr>)"

definition inFragment :: "jsstring \<Rightarrow> bool" where
  "inFragment s \<longleftrightarrow> (\<forall>c \<in> set s. isPathChar c \<or> c = 47)"

definition refURL :: url_ctor where
  "refURL input base =
     (if \<not> inFragment input then None
      else (case base of
              None \<Rightarrow> map_option serialize (parseAbsolute input)
            | Some b \<Rightarrow>
                (case (if inFragment b then parseAbsolute b else None) of
                   None \<Rightarrow> None
                 | Some (scheme, host, path) \<Rightarrow>
                     if hasScheme input then map_option serialize (parseAbsolute input)
                     else if prefix (js ''//'') input
                       then map_option serialize (parseAuthority scheme (drop 2 input))
                     else if prefix (js ''/'') input
                       then Some (serialize (scheme, host, pathState [] (split 47 (drop 1 input))))
                     else if input = [] then Some (serialize (scheme, host, path))
                     else Some (serialize
                                  (scheme, host, pathState (butlast path) (split 47 input))))))"

section \<open>The variants that a master playlist names\<close>





section \<open>Requests of the variant fetch\<close>

text \<open>
  A request of the kind that \<^verbatim>\<open>processMasterPlaylist\<close> sends: the default language, and
  the origin of the requested URL as referer.
\<close>

definition variantRequest :: "url_ctor \<Rightarrow> request \<Rightarrow> bool" where
  "variantRequest U r \<longleftrightarrow>
     accept_language r = defaultAcceptLanguage \<and>
     (case U (req_url r) None of Some u \<Rightarrow> referer r = origin u | None \<Rightarrow> False)"

section \<open>Example worlds\<close>

text \<open>
  Worlds and client headers for the closed examples: a transport that always fails, one
  that answers every request with a master playlist naming the variant \<^verbatim>\<open>v.m3u8\<close>, and
  one that answers the first request with that master playlist and the later ones with
  a media playlist.
\<close>

definition deadWorld :: world where
  "deadWorld = \<lparr>transport = (\<lambda>n req. None), random = (\<lambda>n. 0)\<rparr>"

definition masterWorld :: world where
  "masterWorld =
     \<lparr>transport = (\<lambda>n req. Some \<lparr>ok = True,
         body = Some (js ''#EXTM3U'' @ [10] @ js ''#EXT-X-STREAM-INF:BANDWIDTH=1'' @ [10] @ js ''v.m3u8''),
         content_type = None\<rparr>),
      random = (\<lambda>n. 0)\<rparr>"

definition clientHeaders :: headers where
  "clientHeaders name =
     (if name = ''accept-language'' then Some (js ''fr-FR'')
      else if name = ''referer'' then Some (js ''https://player.example/'')
      else None)"

definition masterThenMedia :: world where
  "masterThenMedia =
     \<lparr>transport = (\<lambda>n req. Some \<lparr>ok = True,
         body = Some (if n = 0
                      then js ''#EXTM3U'' @ [10] @ js ''#EXT-X-STREAM-INF:BANDWIDTH=1'' @ [10] @
                           js ''v.m3u8''
                      else js ''#EXTM3U'' @ [10] @ js ''seg0.ts''),
         content_type = None\<rparr>),
      random = (\<lambda>n. 0)\<rparr>"

text \<open>
  Two more: a transport that answers with an HTML page that contains the marker
  \<^verbatim>\<open>#EXT-X-STREAM-INF\<close>, and one that answers the first request with a master playlist and
  the later ones with a body that contains the marker but neither starts with
  \<^verbatim>\<open>#EXTM3U\<close> nor comes with an HLS content type.
\<close>

definition htmlWorld :: world where
  "htmlWorld =
     \<lparr>transport = (\<lambda>n req. Some \<lparr>ok = True,
         body = Some (js ''<p>#EXT-X-STREAM-INF''),
         content_type = Some (js ''text/html'')\<rparr>),
      random = (\<lambda>n. 0)\<rparr>"

definition masterThenBare :: world where
  "masterThenBare =
     \<lparr>transport = (\<lambda>n req. Some \<lparr>ok = True,
         body = Some (if n = 0
                      then js ''#EXTM3U'' @ [10] @ js ''#EXT-X-STREAM-INF'' @ [10] @ js ''v''
                      else js ''#EXT-X-STREAM-INF'' @ [10] @ js ''w''),
         content_type = Some (js ''text/plain'')\<rparr>),
      random = (\<lambda>n. 0)\<rparr>"

section \<open>What a rewritten line is\<close>

text \<open>
  \<open>proxiedFor target p\<close>: \<open>p\<close> is the proxy path of \<open>target\<close>, the mount prefix followed
  by a segment that percent-decodes to \<open>target\<close> (and the empty string for the empty
  target, which \<^verbatim>\<open>rewriteUrlToProxy\<close> maps to itself).
\<close>

definition proxiedFor :: "jsstring \<Rightarrow> jsstring \<Rightarrow> bool" where
  "proxiedFor target p \<longleftrightarrow>
     (target = [] \<and> p = []) \<or>
     (\<exists>seg. p = js ''/api/proxy/'' @ seg \<and> decodeURIComponent seg = Some target)"



section \<open>Properties of the URI coding\<close>

declare decodeUnits.simps [simp del]

lemma decodeUnits_eqs [simp]:
  "decodeUnits octs 0 [] = Some []"
  "decodeUnits octs 0 (c # cs) =
     (if c \<noteq> 37 then map_option (Cons c) (decodeUnits [] 0 cs)
      else (case cs of
              h1 # h2 # rest \<Rightarrow>
                (case parseHexOctet h1 h2 of
                   None \<Rightarrow> None
                 | Some b \<Rightarrow>
                     (let n = leadingOnes b in
                      if n = 0 then map_option (Cons b) (decodeUnits [] 0 rest)
                      else if n = 1 \<or> 4 < n then None
                      else decodeUnits [b] (n - 1) rest))
            | _ \<Rightarrow> None))"
  "decodeUnits octs (Suc j) (c # h1 # h2 # rest) =
     (if c \<noteq> 37 then None
      else (case parseHexOctet h1 h2 of
              None \<Rightarrow> None
            | Some b \<Rightarrow>
                if j = 0
                then (case utf8Decode (octs @ [b]) of
                        None \<Rightarrow> None
                      | Some v \<Rightarrow> map_option ((@) (utf16Encode v)) (decodeUnits [] 0 rest))
                else decodeUnits (octs @ [b]) j rest))"
  by (auto simp: decodeUnits.simps split: option.splits)

lemma parseHex_hexDigit:
  "b < 256 \<Longrightarrow> parseHexOctet (hexDigit (b div 16)) (hexDigit (b mod 16)) = Some b"
  unfolding parseHexOctet_def hexDigit_def hexValue_def
  by (auto split: option.splits if_splits)

lemma decode_first:
  "b < 256 \<Longrightarrow> decodeUnits octs 0 (pctEncode b @ r) =
     (let n = leadingOnes b in
      if n = 0 then map_option (Cons b) (decodeUnits [] 0 r)
      else if n = 1 \<or> 4 < n then None
      else decodeUnits [b] (n - 1) r)"
  by (simp add: pctEncode_def parseHex_hexDigit)

lemma decode_cont:
  "b < 256 \<Longrightarrow> decodeUnits octs (Suc j) (pctEncode b @ r) =
     (if j = 0
      then (case utf8Decode (octs @ [b]) of
              None \<Rightarrow> None
            | Some v \<Rightarrow> map_option ((@) (utf16Encode v)) (decodeUnits [] 0 r))
      else decodeUnits (octs @ [b]) j r)"
  by (simp add: pctEncode_def parseHex_hexDigit)

lemma modk: "(m::nat) < k \<Longrightarrow> (k * j + m) mod k = m"
  by simp

lemma div_bounds:
  "(cp::nat) < 2048 \<Longrightarrow> cp div 64 < 32"
  "(cp::nat) < 65536 \<Longrightarrow> cp div 4096 < 16"
  "(cp::nat) < 1114112 \<Longrightarrow> cp div 262144 < 8"
  by (simp_all add: less_mult_imp_div_less)

lemma split3: "(cp::nat) div 4096 * 4096 + cp div 64 mod 64 * 64 + cp mod 64 = cp"
proof -
  have "cp div 4096 = cp div 64 div 64" by (simp add: div_mult2_eq [symmetric])
  then have "cp div 4096 * 64 + cp div 64 mod 64 = cp div 64" by simp
  then have "(cp div 4096 * 64 + cp div 64 mod 64) * 64 + cp mod 64 = cp" by simp
  then show ?thesis by (simp add: algebra_simps)
qed

lemma split4:
  "(cp::nat) div 262144 * 262144 + cp div 4096 mod 64 * 4096 + cp div 64 mod 64 * 64 +
     cp mod 64 = cp"
proof -
  have "cp div 262144 = cp div 4096 div 64" by (simp add: div_mult2_eq [symmetric])
  then have "cp div 262144 * 64 + cp div 4096 mod 64 = cp div 4096" by simp
  then have "(cp div 262144 * 64 + cp div 4096 mod 64) * 4096 + cp div 64 mod 64 * 64 +
      cp mod 64 = cp"
    using split3 [of cp] by simp
  then show ?thesis by (simp add: algebra_simps)
qed

lemma append_single_fun: "(@) [x] = (#) x"
  by (rule ext) simp

lemma lead2: "q < 32 \<Longrightarrow> leadingOnes (192 + q) = 2"
  by (simp add: leadingOnes_def)

lemma lead3: "q < 16 \<Longrightarrow> leadingOnes (224 + q) = 3"
  by (simp add: leadingOnes_def)

lemma lead4: "q < 8 \<Longrightarrow> leadingOnes (240 + q) = 4"
  by (simp add: leadingOnes_def)

lemma cont_byte: "m < 64 \<Longrightarrow> isContinuation (128 + m) \<and> (128 + m) mod 64 = m \<and> 128 + m < 256"
  using modk [of m 64 2] by (simp add: isContinuation_def)

lemma decode_utf8_2:
  assumes "128 \<le> cp" "cp < 2048"
  shows "decodeUnits octs 0 (concat (map pctEncode (utf8Encode cp)) @ r) =
     map_option ((@) (utf16Encode cp)) (decodeUnits [] 0 r)"
proof -
  define q where "q = cp div 64"
  define m where "m = cp mod 64"
  have q: "q < 32" and m: "m < 64" and cp: "q * 64 + m = cp"
    using assms div_bounds [of cp] by (simp_all add: q_def m_def)
  have b0: "(192 + q) mod 32 = q" "192 + q < 256"
    using q modk [of q 32 6] modk [of q 16 14] modk [of q 8 30] by simp_all
  have enc: "utf8Encode cp = [192 + q, 128 + m]"
    using assms by (simp add: utf8Encode_def q_def m_def)
  have dec: "utf8Decode [192 + q, 128 + m] = Some cp"
    using assms cont_byte [OF m] b0 cp by (simp add: utf8Decode_def)
  show ?thesis
    using b0 cont_byte [OF m] lead2 [OF q] dec
    by (simp add: enc decode_first decode_cont)
qed

lemma decode_utf8_3:
  assumes "2048 \<le> cp" "cp < 65536" "\<not> (55296 \<le> cp \<and> cp \<le> 57343)"
  shows "decodeUnits octs 0 (concat (map pctEncode (utf8Encode cp)) @ r) =
     map_option ((@) (utf16Encode cp)) (decodeUnits [] 0 r)"
proof -
  define q where "q = cp div 4096"
  define m1 where "m1 = (cp div 64) mod 64"
  define m where "m = cp mod 64"
  have q: "q < 16" and m1: "m1 < 64" and m: "m < 64" and cp: "q * 4096 + m1 * 64 + m = cp"
    using assms div_bounds [of cp] split3 [of cp] by (simp_all add: q_def m_def m1_def)
  have b0: "(224 + q) mod 16 = q" "224 + q < 256"
    using q modk [of q 32 6] modk [of q 16 14] modk [of q 8 30] by simp_all
  have enc: "utf8Encode cp = [224 + q, 128 + m1, 128 + m]"
    using assms by (simp add: utf8Encode_def q_def m_def m1_def)
  have dec: "utf8Decode [224 + q, 128 + m1, 128 + m] = Some cp"
    using assms cont_byte [OF m] cont_byte [OF m1] b0 cp by (simp add: utf8Decode_def)
  show ?thesis
    using b0 cont_byte [OF m] cont_byte [OF m1] lead3 [OF q] dec
    by (simp add: enc decode_first decode_cont numeral_2_eq_2)
qed

lemma decode_utf8_4:
  assumes "65536 \<le> cp" "cp < 1114112"
  shows "decodeUnits octs 0 (concat (map pctEncode (utf8Encode cp)) @ r) =
     map_option ((@) (utf16Encode cp)) (decodeUnits [] 0 r)"
proof -
  define q where "q = cp div 262144"
  define m2 where "m2 = (cp div 4096) mod 64"
  define m1 where "m1 = (cp div 64) mod 64"
  define m where "m = cp mod 64"
  have q: "q < 8" and m2: "m2 < 64" and m1: "m1 < 64" and m: "m < 64"
    and cp: "q * 262144 + m2 * 4096 + m1 * 64 + m = cp"
    using assms div_bounds [of cp] split4 [of cp] by (simp_all add: q_def m_def m1_def m2_def)
  have b0: "(240 + q) mod 8 = q" "240 + q < 256"
    using q modk [of q 32 6] modk [of q 16 14] modk [of q 8 30] by simp_all
  have enc: "utf8Encode cp = [240 + q, 128 + m2, 128 + m1, 128 + m]"
    using assms by (simp add: utf8Encode_def q_def m_def m1_def m2_def)
  have dec: "utf8Decode [240 + q, 128 + m2, 128 + m1, 128 + m] = Some cp"
    using assms cont_byte [OF m] cont_byte [OF m1] cont_byte [OF m2] b0 cp
    by (simp add: utf8Decode_def)
  show ?thesis
    using b0 cont_byte [OF m] cont_byte [OF m1] cont_byte [OF m2] lead4 [OF q] dec
    by (simp add: enc decode_first decode_cont numeral_3_eq_3)
qed

lemma decode_utf8:
  assumes "cp < 1114112" "\<not> (55296 \<le> cp \<and> cp \<le> 57343)" "\<not> isUnescaped cp"
  shows "decodeUnits octs 0 (concat (map pctEncode (utf8Encode cp)) @ r) =
     map_option ((@) (utf16Encode cp)) (decodeUnits [] 0 r)"
proof -
  consider "cp < 128" | "128 \<le> cp" "cp < 2048" | "2048 \<le> cp" "cp < 65536" | "65536 \<le> cp"
    by linarith
  then show ?thesis
  proof cases
    case 1
    then show ?thesis
      by (simp add: utf8Encode_def decode_first leadingOnes_def utf16Encode_def append_single_fun)
  next
    case 2
    then show ?thesis by (rule decode_utf8_2)
  next
    case 3
    then show ?thesis using assms by (intro decode_utf8_3) auto
  next
    case 4
    then show ?thesis using assms by (intro decode_utf8_4) auto
  qed
qed


lemma surrogate_pair:
  assumes "isLeadSurrogate lead" "isTrailSurrogate trail"
  shows "utf16Encode (surrogatePair lead trail) = [lead, trail]"
    and "surrogatePair lead trail < 1114112"
    and "65536 \<le> surrogatePair lead trail"
proof -
  define a where "a = lead - 55296"
  define b where "b = trail - 56320"
  have a: "a < 1024" "lead = a + 55296" and b: "b < 1024" "trail = b + 56320"
    using assms unfolding a_def b_def isLeadSurrogate_def isTrailSurrogate_def by linarith+
  show "utf16Encode (surrogatePair lead trail) = [lead, trail]"
    using a b by (simp add: utf16Encode_def surrogatePair_def)
  have "a * 1024 \<le> 1023 * 1024" using a by simp
  then show "surrogatePair lead trail < 1114112"
    using a b by (simp add: surrogatePair_def)
  show "65536 \<le> surrogatePair lead trail"
    by (simp add: surrogatePair_def)
qed

lemma not_unescaped_big: "128 \<le> c \<Longrightarrow> \<not> isUnescaped c"
  by (auto simp: isUnescaped_def)

lemma decodeUnits_plain:
  "c \<noteq> 37 \<Longrightarrow> decodeUnits octs 0 (c # cs) = map_option (Cons c) (decodeUnits [] 0 cs)"
  by simp

lemma roundtrip_units:
  "\<forall>c\<in>set u. c < 65536 \<Longrightarrow> encodeUnits u = Some e \<Longrightarrow> decodeUnits [] 0 e = Some u"
proof (induction u arbitrary: e rule: encodeUnits.induct)
  case 1
  then show ?case by simp
next
  case (2 c cs)
  show ?case
  proof (cases "isUnescaped c")
    case True
    with "2.prems" obtain e' where e': "encodeUnits cs = Some e'" "e = c # e'"
      by auto
    have "c \<noteq> 37" using True by (auto simp: isUnescaped_def)
    moreover have "decodeUnits [] 0 e' = Some cs"
      using "2.IH"(1) [OF True _ e'(1)] "2.prems"(1) by simp
    ultimately show ?thesis by (simp add: e'(2) decodeUnits_plain del: decodeUnits_eqs)
  next
    case unesc: False
    show ?thesis
    proof (cases "\<not> isLeadSurrogate c \<and> \<not> isTrailSurrogate c")
      case True
      with unesc "2.prems" obtain e' where
        e': "encodeUnits cs = Some e'" "e = concat (map pctEncode (utf8Encode c)) @ e'"
        by auto
      have c: "c < 1114112" "\<not> (55296 \<le> c \<and> c \<le> 57343)" "c < 65536"
        using True "2.prems"(1) by (auto simp: isLeadSurrogate_def isTrailSurrogate_def)
      have "decodeUnits [] 0 e' = Some cs"
        using "2.IH"(2) [OF unesc True _ e'(1)] "2.prems"(1) by simp
      then show ?thesis
        using decode_utf8 [OF c(1,2) unesc, of "[]" e'] c(3)
        by (simp add: e'(2) utf16Encode_def del: decodeUnits_eqs)
    next
      case False
      with unesc "2.prems" obtain d ds e' where
        d: "cs = d # ds" "isLeadSurrogate c" "isTrailSurrogate d" "\<not> isTrailSurrogate c"
        and e': "encodeUnits ds = Some e'"
          "e = concat (map pctEncode (utf8Encode (surrogatePair c d))) @ e'"
        by (auto split: list.splits if_splits)
      note sp = surrogate_pair [OF d(2,3)]
      have "decodeUnits [] 0 e' = Some ds"
        using "2.IH"(3) [OF unesc False d(4) d(1) _ _ e'(1)] d(3) "2.prems"(1) d(1) by simp
      moreover have "\<not> (55296 \<le> surrogatePair c d \<and> surrogatePair c d \<le> 57343)"
        using sp(3) by simp
      ultimately show ?thesis
        using decode_utf8 [OF sp(2) _ not_unescaped_big, of "[]" e'] sp(1,3)
        by (simp add: e'(2) d(1) del: decodeUnits_eqs)
    qed
  qed
qed

lemma pctEncode_ascii: "b < 256 \<Longrightarrow> x \<in> set (pctEncode b) \<Longrightarrow> x < 128"
proof -
  assume b: "b < 256" and x: "x \<in> set (pctEncode b)"
  have "b div 16 < 16" using b by (simp add: less_mult_imp_div_less)
  then show ?thesis using x by (auto simp: pctEncode_def hexDigit_def)
qed

lemma utf8Encode_octets: "cp < 1114112 \<Longrightarrow> b \<in> set (utf8Encode cp) \<Longrightarrow> b < 256"
  using div_bounds [of cp]
  by (auto simp: utf8Encode_def split: if_splits)

lemma pct_utf8_ascii:
  "cp < 1114112 \<Longrightarrow> x \<in> set (concat (map pctEncode (utf8Encode cp))) \<Longrightarrow> x < 128"
  using pctEncode_ascii utf8Encode_octets by fastforce

lemma encodeUnits_ascii:
  "\<forall>c\<in>set u. c < 65536 \<Longrightarrow> encodeUnits u = Some e \<Longrightarrow> x \<in> set e \<Longrightarrow> x < 128"
proof (induction u arbitrary: e rule: encodeUnits.induct)
  case 1
  then show ?case by simp
next
  case (2 c cs)
  show ?case
  proof (cases "isUnescaped c")
    case True
    with "2.prems" obtain e' where e': "encodeUnits cs = Some e'" "e = c # e'"
      by auto
    have "c < 128" using True by (auto simp: isUnescaped_def)
    then show ?thesis
      using "2.IH"(1) [OF True _ e'(1)] "2.prems"(1,3) e'(2) by auto
  next
    case unesc: False
    show ?thesis
    proof (cases "\<not> isLeadSurrogate c \<and> \<not> isTrailSurrogate c")
      case True
      with unesc "2.prems" obtain e' where
        e': "encodeUnits cs = Some e'" "e = concat (map pctEncode (utf8Encode c)) @ e'"
        by auto
      have "c < 1114112" using "2.prems"(1) by simp
      then show ?thesis
        using "2.IH"(2) [OF unesc True _ e'(1)] "2.prems"(1,3) e'(2) pct_utf8_ascii [of c x]
        by auto
    next
      case False
      with unesc "2.prems" obtain d ds e' where
        d: "cs = d # ds" "isLeadSurrogate c" "isTrailSurrogate d" "\<not> isTrailSurrogate c"
        and e': "encodeUnits ds = Some e'"
          "e = concat (map pctEncode (utf8Encode (surrogatePair c d))) @ e'"
        by (auto split: list.splits if_splits)
      note sp = surrogate_pair [OF d(2,3)]
      show ?thesis
        using "2.IH"(3) [OF unesc False d(4) d(1) _ _ e'(1)] d(1,3) "2.prems"(1,3) e'(2)
          pct_utf8_ascii [OF sp(2), of x]
        by auto
    qed
  qed
qed

lemma unescaped_not_surrogate:
  "isUnescaped c \<Longrightarrow> \<not> isLeadSurrogate c \<and> \<not> isTrailSurrogate c"
  by (auto simp: isUnescaped_def isLeadSurrogate_def isTrailSurrogate_def)

lemma wellFormed_encodes: "wellFormedUnits u \<Longrightarrow> \<exists>e. encodeUnits u = Some e"
proof (induction u rule: encodeUnits.induct)
  case 1
  then show ?case by simp
next
  case (2 c cs)
  show ?case
  proof (cases "isUnescaped c")
    case True
    then show ?thesis
      using "2.IH"(1) [OF True] "2.prems" unescaped_not_surrogate [OF True] by auto
  next
    case unesc: False
    show ?thesis
    proof (cases "\<not> isLeadSurrogate c \<and> \<not> isTrailSurrogate c")
      case True
      then show ?thesis using "2.IH"(2) [OF unesc True] "2.prems" unesc by auto
    next
      case False
      with "2.prems" obtain d ds where
        d: "cs = d # ds" "isTrailSurrogate d" "\<not> isTrailSurrogate c" "wellFormedUnits ds"
        by (auto split: list.splits if_splits)
      from "2.IH"(3) [OF unesc False d(3) d(1) _ d(4)] d(2)
      obtain e where "encodeUnits ds = Some e" by auto
      then show ?thesis using unesc False d by simp
    qed
  qed
qed

lemma unat_of_nat_unit: "x < 65536 \<Longrightarrow> unat (of_nat x :: code_unit) = x"
  by (simp add: unat_of_nat)

lemma unat_unit_less: "unat (c :: code_unit) < 65536"
  using unsigned_less [of c] by simp

lemma uri_roundtrip:
  assumes "encodeURIComponent s = Some e"
  shows "decodeURIComponent e = Some s"
proof -
  from assms obtain en where en: "encodeUnits (map unat s) = Some en" "e = map of_nat en"
    by (auto simp: encodeURIComponent_def)
  have "\<forall>x\<in>set en. x < 65536"
    using encodeUnits_ascii [OF _ en(1)] unat_unit_less by fastforce
  then have units: "map unat e = en"
    unfolding en(2) by (induction en) (simp_all add: unat_of_nat_unit)
  have "decodeUnits [] 0 en = Some (map unat s)"
    using roundtrip_units [OF _ en(1)] unat_unit_less by simp
  then show ?thesis
    by (simp add: decodeURIComponent_def units comp_def)
qed

section \<open>The round trip of the proxy path\<close>

text \<open>
  C1. For every absolute HTTP or HTTPS URL \<open>u\<close>, \<^verbatim>\<open>rewriteUrlToProxy\<close> yields the mount prefix
  \<^verbatim>\<open>/api/proxy/\<close> followed by a segment, and \<^verbatim>\<open>getTargetUrlFromPath\<close> of that segment is
  \<open>u\<close> itself. The URLs are the strings that match \<^verbatim>\<open>^https?://\<close> and have no unpaired
  surrogate (a URL is made of code points, so it has none).
\<close>

theorem proxy_path_roundtrip:
  assumes "matchHttp u" and "isWellFormed u"
  shows "\<exists>seg. rewriteUrlToProxy u = Inr (js ''/api/proxy/'' @ seg) \<and>
               getTargetUrlFromPath seg = Some u"
proof -
  from assms(2) obtain e where e: "encodeURIComponent u = Some e"
    using wellFormed_encodes [of "map unat u"]
    by (auto simp: isWellFormed_def encodeURIComponent_def)
  have u: "u \<noteq> []" using assms(1) by (auto simp: matchHttp_def js_def)
  have dec: "decodeURIComponent e = Some u" by (rule uri_roundtrip [OF e])
  then have "e \<noteq> []" using u by (auto simp: decodeURIComponent_def)
  then have "getTargetUrlFromPath e = Some u"
    using dec assms(1) by (simp add: getTargetUrlFromPath_def)
  moreover have "rewriteUrlToProxy u = Inr (js ''/api/proxy/'' @ e)"
    using u e by (simp add: rewriteUrlToProxy_def)
  ultimately show ?thesis by blast
qed

theorem proxy_path_roundtrip_witness:
  "matchHttp (js ''https://a/b c?d=1'' @ [233, 55357, 56832]) \<and>
   isWellFormed (js ''https://a/b c?d=1'' @ [233, 55357, 56832]) \<and>
   (\<exists>seg. rewriteUrlToProxy (js ''https://a/b c?d=1'' @ [233, 55357, 56832]) =
            Inr (js ''/api/proxy/'' @ seg) \<and>
          getTargetUrlFromPath seg = Some (js ''https://a/b c?d=1'' @ [233, 55357, 56832]))"
proof -
  have m: "matchHttp (js ''https://a/b c?d=1'' @ [233, 55357, 56832])"
    by (simp add: matchHttp_def js_def asciiLower_def)
  have w: "isWellFormed (js ''https://a/b c?d=1'' @ [233, 55357, 56832])"
    by (simp add: isWellFormed_def js_def isLeadSurrogate_def isTrailSurrogate_def)
  show ?thesis using m w proxy_path_roundtrip [OF m w] by blast
qed

section \<open>A segment that does not decode\<close>

text \<open>
  The source tries the raw segment when the decoded one does not match
  \<^verbatim>\<open>^https?://\<close> (``try the raw path (if not encoded)'', with the log message ``Path was
  not encoded but looks like URL''). That branch is never taken: decoding leaves the
  characters before the first percent sign as they are, so a raw segment that matches
  has a decoded form that matches too.
\<close>

lemma decode_keeps_head:
  "\<forall>c\<in>set p. c \<noteq> 37 \<Longrightarrow>
     decodeUnits [] 0 (p @ r) = map_option ((@) p) (decodeUnits [] 0 r)"
proof (induction p)
  case Nil
  then show ?case by (cases "decodeUnits [] 0 r") simp_all
next
  case (Cons c p)
  then show ?case
    by (cases "decodeUnits [] 0 r") (simp_all add: decodeUnits_plain del: decodeUnits_eqs)
qed

lemma matched_head:
  assumes "prefix P (map asciiLower s)" and "37 \<notin> set P"
  shows "\<exists>p r. s = p @ r \<and> map asciiLower p = P \<and> (\<forall>c\<in>set p. unat c \<noteq> 37)"
proof -
  from assms(1) obtain z where "map asciiLower s = P @ z" by (auto simp: prefix_def)
  then obtain p r where pr: "s = p @ r" "map asciiLower p = P"
    by (auto simp: map_eq_append_conv)
  have "unat c \<noteq> 37" if "c \<in> set p" for c
  proof
    assume "unat c = 37"
    then have "c = 37" by (simp add: word_unat_eq_iff)
    then have "asciiLower c = 37" by (simp add: asciiLower_def)
    then have "37 \<in> set (map asciiLower p)" using that by force
    then show False using pr(2) assms(2) by simp
  qed
  with pr show ?thesis by blast
qed

lemma decoded_head:
  assumes "s = p @ r" and "\<forall>c\<in>set p. unat c \<noteq> 37" and "decodeURIComponent s = Some d"
  shows "\<exists>d'. d = p @ d'"
proof -
  have "decodeUnits [] 0 (map unat p @ map unat r) =
      map_option ((@) (map unat p)) (decodeUnits [] 0 (map unat r))"
    using assms(2) by (intro decode_keeps_head) auto
  with assms(1,3) obtain r' where "d = map of_nat (map unat p @ r')"
    by (auto simp: decodeURIComponent_def)
  then have "d = p @ map of_nat r'" by (simp add: comp_def)
  then show ?thesis by blast
qed

lemma matchHttp_decoded:
  assumes "matchHttp s" and "decodeURIComponent s = Some d"
  shows "matchHttp d"
proof -
  have no: "37 \<notin> set (js ''http://'')" "37 \<notin> set (js ''https://'')" by (simp_all add: js_def)
  from assms(1) consider "prefix (js ''http://'') (map asciiLower s)"
    | "prefix (js ''https://'') (map asciiLower s)"
    by (auto simp: matchHttp_def Let_def)
  then show ?thesis
  proof cases
    case 1
    from matched_head [OF 1 no(1)] obtain p r where
      pr: "s = p @ r" "map asciiLower p = js ''http://''" "\<forall>c\<in>set p. unat c \<noteq> 37"
      by blast
    from decoded_head [OF pr(1,3) assms(2)] obtain d' where "d = p @ d'" by blast
    then show ?thesis using pr(2) by (simp add: matchHttp_def Let_def)
  next
    case 2
    from matched_head [OF 2 no(2)] obtain p r where
      pr: "s = p @ r" "map asciiLower p = js ''https://''" "\<forall>c\<in>set p. unat c \<noteq> 37"
      by blast
    from decoded_head [OF pr(1,3) assms(2)] obtain d' where "d = p @ d'" by blast
    then show ?thesis using pr(2) by (simp add: matchHttp_def Let_def)
  qed
qed

lemma raw_fallback_dead:
  "getTargetUrlFromPath s =
     (case decodeURIComponent s of
        None \<Rightarrow> None
      | Some d \<Rightarrow> if matchHttp d then Some d else None)"
proof (cases "s = []")
  case True
  then show ?thesis
    by (simp add: getTargetUrlFromPath_def decodeURIComponent_def matchHttp_def js_def)
next
  case False
  then show ?thesis
    using matchHttp_decoded [of s]
    by (auto simp: getTargetUrlFromPath_def split: option.splits)
qed

text \<open>
  C6. When percent-decoding of the segment raises and the raw segment matches
  \<^verbatim>\<open>^https?://\<close>, \<^verbatim>\<open>getTargetUrlFromPath\<close> is to return the raw segment. The code does not:
  on the raw URL \<^verbatim>\<open>http://a/%\<close> decoding raises, the raw segment matches, and the \<^verbatim>\<open>catch\<close>
  block returns \<^verbatim>\<open>null\<close>. The only fallback to the raw segment sits where it cannot run
  (\<open>raw_fallback_dead\<close>).
\<close>

theorem raw_fallback_counterexample:
  "decodeURIComponent (js ''http://a/%'') = None \<and> matchHttp (js ''http://a/%'') \<and>
   getTargetUrlFromPath (js ''http://a/%'') \<noteq> Some (js ''http://a/%'')"
  by code_simp

section \<open>The recursion bound\<close>

lemma fetch_sent:
  "fetchContentWithType U W targetUrl h agents sent = (r, sent') \<Longrightarrow>
     sent' = sent \<or>
     (\<exists>req. sent' = sent @ [req] \<and> req_url req = targetUrl \<and>
        accept_language req = headerOr h ''accept-language'' defaultAcceptLanguage \<and>
        referer req =
          (if headerOr h ''referer'' [] \<noteq> [] then headerOr h ''referer'' []
           else (case U targetUrl None of Some u \<Rightarrow> origin u | None \<Rightarrow> [])) \<and>
        (headerOr h ''referer'' [] = [] \<longrightarrow> U targetUrl None \<noteq> None))"
  unfolding fetchContentWithType_def Let_def
  by (auto split: option.splits if_splits)

text \<open>
  C4. For every URL, body and bound \<open>maxRecursion\<close>, \<^verbatim>\<open>processMasterPlaylist\<close> called with a
  depth greater than \<open>maxRecursion\<close> fails with the recursion-limit error and has sent no
  request: the list of requests sent is the one it was given.
\<close>

theorem recursion_limit_before_fetch:
  "maxRecursion < recursionDepth \<Longrightarrow>
     processMasterPlaylist U W url content recursionDepth maxRecursion userAgents sent =
       (Inl RecursionLimitError, sent)"
  by simp

theorem recursion_limit_before_fetch_witness:
  "(5::int) < 6 \<and>
   processMasterPlaylist refURL deadWorld (js ''https://host/path/live.m3u8'')
     (js ''#EXTM3U'') 6 5 [] [] = (Inl RecursionLimitError, [])"
  using recursion_limit_before_fetch [of 5 6 refURL deadWorld "js ''https://host/path/live.m3u8''"
      "js ''#EXTM3U''" "[]" "[]"]
  by simp

lemma sent_bound:
  "length (snd (processM3u8Content U W t c d m a s)) \<le> length s + nat (m + 1 - d)"
  "length (snd (processMasterPlaylist U W t c d m a s)) \<le> length s + nat (m + 1 - d)"
proof (induction U W t c d m a s and U W t c d m a s
    rule: processM3u8Content_processMasterPlaylist.induct)
  case (1 U W targetUrl content recursionDepth maxRecursion userAgents sent)
  then show ?case by simp
next
  case (2 U W url content recursionDepth maxRecursion userAgents sent)
  show ?case
  proof (cases "maxRecursion < recursionDepth")
    case True
    then show ?thesis by simp
  next
    case False
    define best where "best = selectBestVariantUrl U url content"
    show ?thesis
    proof (cases "best = []")
      case True
      then show ?thesis using False by (simp add: best_def)
    next
      case nonempty: False
      obtain r sent' where f: "fetchContentWithType U W best (\<lambda>name. None) userAgents sent = (r, sent')"
        by (cases "fetchContentWithType U W best (\<lambda>name. None) userAgents sent")
      have len: "length sent' \<le> length sent + 1"
        using fetch_sent [OF f] by auto
      have room: "1 + nat (maxRecursion + 1 - (recursionDepth + 1)) \<le> nat (maxRecursion + 1 - recursionDepth)"
        using False by simp
      show ?thesis
      proof (cases r)
        case (Inl e)
        then show ?thesis using False nonempty f len by (simp add: best_def [symmetric])
      next
        case (Inr cv)
        obtain vc vct where cv: "cv = (vc, vct)" by (cases cv)
        show ?thesis
        proof (cases "isM3u8Content vc vct")
          case True
          have "length (snd (processM3u8Content U W best vc (recursionDepth + 1) maxRecursion userAgents sent'))
                \<le> length sent' + nat (maxRecursion + 1 - (recursionDepth + 1))"
            using "2.IH" [OF False best_def nonempty f [symmetric, unfolded Inr cv]] True
            by simp
          then show ?thesis
            using False nonempty f len room Inr cv True by (simp add: best_def [symmetric])
        next
          case notm: False
          then show ?thesis
            using False nonempty f len Inr cv by (simp add: best_def [symmetric])
        qed
      qed
    qed
  qed
qed

text \<open>
  C2 as stated: an inbound request handled with the bound \<open>maxRecursion\<close> issues at most
  \<open>maxRecursion + 1\<close> fetches. It does not: with the bound 0 and an upstream that answers
  every request with a master playlist, the handler fetches the target and then the
  variant named at depth 0, two fetches, before the depth 1 exceeds the bound.
\<close>

theorem fetch_bound_counterexample:
  "\<not> int (length (snd (handler refURL masterWorld 0 [] (js ''GET'')
        (js ''https%3A%2F%2Fhost%2Fpath%2Flive.m3u8'') (\<lambda>name. None)))) \<le> 0 + 1"
  by code_simp

text \<open>
  C2 as the code has it: the test is \<^verbatim>\<open>recursionDepth > maxRecursion\<close>, so a master
  playlist is resolved at each of the depths 0 to \<open>maxRecursion\<close>, and the handler issues
  at most \<open>maxRecursion + 2\<close> fetches for a bound that is not negative (the initial fetch
  and \<open>maxRecursion + 1\<close> variant fetches), and at most one for a negative bound.
\<close>

theorem handler_fetch_bound:
  "int (length (snd (handler U W MAX_RECURSION USER_AGENTS method encodedUrlPath reqHeaders)))
     \<le> max 0 (MAX_RECURSION + 1) + 1"
proof -
  have master: "length (snd (processM3u8Content U W t c 0 MAX_RECURSION USER_AGENTS s))
      \<le> length s + nat (MAX_RECURSION + 1)" for t c s
    using sent_bound(1) [of U W t c 0 MAX_RECURSION USER_AGENTS s] by simp
  show ?thesis
  proof (cases "method = js ''OPTIONS''")
    case True
    then show ?thesis by (simp add: handler_def)
  next
    case False
    show ?thesis
    proof (cases "getTargetUrlFromPath encodedUrlPath")
      case None
      then show ?thesis using False by (simp add: handler_def)
    next
      case (Some targetUrl)
      obtain r sent where f: "fetchContentWithType U W targetUrl reqHeaders USER_AGENTS [] = (r, sent)"
        by (cases "fetchContentWithType U W targetUrl reqHeaders USER_AGENTS []")
      have len: "length sent \<le> 1" using fetch_sent [OF f] by auto
      show ?thesis
      proof (cases r)
        case (Inl e)
        then show ?thesis using False Some f len by (simp add: handler_def)
      next
        case (Inr cv)
        obtain content contentType where cv: "cv = (content, contentType)" by (cases cv)
        show ?thesis
        proof (cases "isM3u8Content content contentType")
          case True
          obtain r' sent' where p: "processM3u8Content U W targetUrl content 0 MAX_RECURSION USER_AGENTS sent = (r', sent')"
            by (cases "processM3u8Content U W targetUrl content 0 MAX_RECURSION USER_AGENTS sent")
          have "length sent' \<le> length sent + nat (MAX_RECURSION + 1)"
            using master [of targetUrl content sent] p by simp
          then have "int (length sent') \<le> max 0 (MAX_RECURSION + 1) + 1"
            using len by simp
          then show ?thesis
            using False Some f Inr cv True p by (cases r') (simp_all add: handler_def)
        next
          case notm: False
          then show ?thesis using False Some f len Inr cv by (simp add: handler_def)
        qed
      qed
    qed
  qed
qed

theorem handler_fetch_bound_witness:
  "int (length (snd (handler refURL masterWorld 0 [] (js ''GET'')
        (js ''https%3A%2F%2Fhost%2Fpath%2Flive.m3u8'') (\<lambda>name. None)))) = 2 \<and>
   (2::int) \<le> max 0 (0 + 1) + 1"
proof -
  have two: "int (length (snd (handler refURL masterWorld 0 [] (js ''GET'')
        (js ''https%3A%2F%2Fhost%2Fpath%2Flive.m3u8'') (\<lambda>name. None)))) = 2"
    by code_simp
  show ?thesis
    using two handler_fetch_bound [of refURL masterWorld 0 "[]" "js ''GET''"
        "js ''https%3A%2F%2Fhost%2Fpath%2Flive.m3u8''" "\<lambda>name. None"]
    by simp
qed

section \<open>The headers of the variant fetch\<close>

lemma fetch_variant:
  assumes "fetchContentWithType U W targetUrl (\<lambda>name. None) agents sent = (r, sent')"
  shows "\<exists>new. sent' = sent @ new \<and> (\<forall>q\<in>set new. variantRequest U q)"
proof -
  from fetch_sent [OF assms] show ?thesis
  proof
    assume "sent' = sent"
    then show ?thesis by simp
  next
    assume "\<exists>req. sent' = sent @ [req] \<and> req_url req = targetUrl \<and>
        accept_language req = headerOr (\<lambda>name. None) ''accept-language'' defaultAcceptLanguage \<and>
        referer req =
          (if headerOr (\<lambda>name. None) ''referer'' [] \<noteq> [] then headerOr (\<lambda>name. None) ''referer'' []
           else (case U targetUrl None of Some u \<Rightarrow> origin u | None \<Rightarrow> [])) \<and>
        (headerOr (\<lambda>name. None) ''referer'' [] = [] \<longrightarrow> U targetUrl None \<noteq> None)"
    then obtain req where req: "sent' = sent @ [req]" "req_url req = targetUrl"
      "accept_language req = defaultAcceptLanguage"
      "referer req = (case U targetUrl None of Some u \<Rightarrow> origin u | None \<Rightarrow> [])"
      "U targetUrl None \<noteq> None"
      by (auto simp: headerOr_def)
    then have "variantRequest U req"
      by (auto simp: variantRequest_def split: option.splits)
    with req(1) show ?thesis by simp
  qed
qed

lemma sent_variant:
  "\<exists>new. snd (processM3u8Content U W t c d m a s) = s @ new \<and> (\<forall>q\<in>set new. variantRequest U q)"
  "\<exists>new. snd (processMasterPlaylist U W t c d m a s) = s @ new \<and> (\<forall>q\<in>set new. variantRequest U q)"
proof (induction U W t c d m a s and U W t c d m a s
    rule: processM3u8Content_processMasterPlaylist.induct)
  case (1 U W targetUrl content recursionDepth maxRecursion userAgents sent)
  then show ?case by simp
next
  case (2 U W url content recursionDepth maxRecursion userAgents sent)
  show ?case
  proof (cases "maxRecursion < recursionDepth")
    case True
    then show ?thesis by simp
  next
    case False
    define best where "best = selectBestVariantUrl U url content"
    show ?thesis
    proof (cases "best = []")
      case True
      then show ?thesis using False by (simp add: best_def)
    next
      case nonempty: False
      obtain r sent' where f: "fetchContentWithType U W best (\<lambda>name. None) userAgents sent = (r, sent')"
        by (cases "fetchContentWithType U W best (\<lambda>name. None) userAgents sent")
      from fetch_variant [OF f] obtain new where
        new: "sent' = sent @ new" "\<forall>q\<in>set new. variantRequest U q"
        by blast
      show ?thesis
      proof (cases r)
        case (Inl e)
        then show ?thesis using False nonempty f new by (simp add: best_def [symmetric])
      next
        case (Inr cv)
        obtain vc vct where cv: "cv = (vc, vct)" by (cases cv)
        show ?thesis
        proof (cases "isM3u8Content vc vct")
          case True
          from "2.IH" [OF False best_def nonempty f [symmetric, unfolded Inr cv] refl refl]
            True
          obtain new' where new': "snd (processM3u8Content U W best vc (recursionDepth + 1)
              maxRecursion userAgents sent') = sent' @ new'" "\<forall>q\<in>set new'. variantRequest U q"
            by (fastforce simp del: processM3u8Content.simps)
          have "snd (processMasterPlaylist U W url content recursionDepth maxRecursion userAgents sent)
              = sent @ (new @ new')"
            using False nonempty f Inr cv True new'(1) new(1) by (simp add: best_def [symmetric])
          moreover have "\<forall>q\<in>set (new @ new'). variantRequest U q"
            using new(2) new'(2) by auto
          ultimately show ?thesis by blast
        next
          case notm: False
          then show ?thesis
            using False nonempty f new Inr cv by (simp add: best_def [symmetric])
        qed
      qed
    qed
  qed
qed

text \<open>
  C10. Of the requests that the handler sends for one inbound request, every one after
  the first (the fetches of the selected variants) carries the default
  \<^verbatim>\<open>Accept-Language\<close> and, as \<^verbatim>\<open>Referer\<close>, the origin of its own URL, whatever the client
  sent; the first one carries the client's \<^verbatim>\<open>Accept-Language\<close> (the default when the client
  sent none) and the client's \<^verbatim>\<open>Referer\<close> when the client sent one.
\<close>

theorem variant_fetch_headers:
  assumes "snd (handler U W MAX_RECURSION USER_AGENTS method encodedUrlPath reqHeaders) = sent"
  shows "(\<forall>q \<in> set (tl sent).
            accept_language q = defaultAcceptLanguage \<and>
            (case U (req_url q) None of Some u \<Rightarrow> referer q = origin u | None \<Rightarrow> False)) \<and>
         (sent \<noteq> [] \<longrightarrow>
            accept_language (hd sent) = headerOr reqHeaders ''accept-language'' defaultAcceptLanguage \<and>
            (headerOr reqHeaders ''referer'' [] \<noteq> [] \<longrightarrow>
               referer (hd sent) = headerOr reqHeaders ''referer'' []))"
proof (cases "method = js ''OPTIONS''")
  case True
  then show ?thesis using assms by (auto simp: handler_def)
next
  case False
  show ?thesis
  proof (cases "getTargetUrlFromPath encodedUrlPath")
    case None
    then show ?thesis using False assms by (auto simp: handler_def)
  next
    case (Some targetUrl)
    obtain r s1 where f: "fetchContentWithType U W targetUrl reqHeaders USER_AGENTS [] = (r, s1)"
      by (cases "fetchContentWithType U W targetUrl reqHeaders USER_AGENTS []")
    have first: "s1 = [] \<or> (\<exists>req. s1 = [req] \<and>
        accept_language req = headerOr reqHeaders ''accept-language'' defaultAcceptLanguage \<and>
        (headerOr reqHeaders ''referer'' [] \<noteq> [] \<longrightarrow>
           referer req = headerOr reqHeaders ''referer'' []))"
      using fetch_sent [OF f] by auto
    have shape: "\<exists>new. sent = s1 @ new \<and> (\<forall>q\<in>set new. variantRequest U q)"
    proof (cases r)
      case (Inl e)
      then show ?thesis using False Some f assms by (simp add: handler_def)
    next
      case (Inr cv)
      obtain content contentType where cv: "cv = (content, contentType)" by (cases cv)
      show ?thesis
      proof (cases "isM3u8Content content contentType")
        case True
        obtain r' s2 where p: "processM3u8Content U W targetUrl content 0 MAX_RECURSION USER_AGENTS s1 = (r', s2)"
          by (cases "processM3u8Content U W targetUrl content 0 MAX_RECURSION USER_AGENTS s1")
        have "sent = s2"
          using False Some f Inr cv True p assms by (cases r') (simp_all add: handler_def)
        then show ?thesis
          using sent_variant(1) [of U W targetUrl content 0 MAX_RECURSION USER_AGENTS s1] p
          by simp
      next
        case notm: False
        then show ?thesis using False Some f Inr cv assms by (simp add: handler_def)
      qed
    qed
    then obtain new where new: "sent = s1 @ new" "\<forall>q\<in>set new. variantRequest U q"
      by blast
    from first show ?thesis
    proof
      assume s1: "s1 = []"
      have "fst (fetchContentWithType U W targetUrl reqHeaders USER_AGENTS []) = Inl TypeError"
        using f s1 unfolding fetchContentWithType_def Let_def
        by (auto split: option.splits if_splits)
      then have "sent = []"
        using False Some f s1 assms by (simp add: handler_def)
      then show ?thesis by simp
    next
      assume "\<exists>req. s1 = [req] \<and>
        accept_language req = headerOr reqHeaders ''accept-language'' defaultAcceptLanguage \<and>
        (headerOr reqHeaders ''referer'' [] \<noteq> [] \<longrightarrow>
           referer req = headerOr reqHeaders ''referer'' [])"
      then obtain req where req: "s1 = [req]"
        "accept_language req = headerOr reqHeaders ''accept-language'' defaultAcceptLanguage"
        "headerOr reqHeaders ''referer'' [] \<noteq> [] \<longrightarrow> referer req = headerOr reqHeaders ''referer'' []"
        by blast
      show ?thesis
        using new req by (auto simp: variantRequest_def)
    qed
  qed
qed

lemma example_run: "handler refURL masterThenMedia 5 [js ''ua''] (js ''GET'')
       (js ''https%3A%2F%2Fhost%2Fpath%2Flive.m3u8'') clientHeaders =
     (Playlist (js ''#EXTM3U'' @ [10] @ js ''/api/proxy/https%3A%2F%2Fhost%2Fpath%2Fseg0.ts''),
      [\<lparr>req_url = js ''https://host/path/live.m3u8'', user_agent = js ''ua'',
        accept = js ''*/*'', accept_language = js ''fr-FR'',
        referer = js ''https://player.example/''\<rparr>,
       \<lparr>req_url = js ''https://host/path/v.m3u8'', user_agent = js ''ua'',
        accept = js ''*/*'', accept_language = js ''zh-CN,zh;q=0.9,en;q=0.8'',
        referer = js ''https://host''\<rparr>])"
  by code_simp

theorem variant_fetch_headers_witness:
  "snd (handler refURL masterThenMedia 5 [js ''ua''] (js ''GET'')
       (js ''https%3A%2F%2Fhost%2Fpath%2Flive.m3u8'') clientHeaders) =
     [\<lparr>req_url = js ''https://host/path/live.m3u8'', user_agent = js ''ua'',
        accept = js ''*/*'', accept_language = js ''fr-FR'',
        referer = js ''https://player.example/''\<rparr>,
       \<lparr>req_url = js ''https://host/path/v.m3u8'', user_agent = js ''ua'',
        accept = js ''*/*'', accept_language = js ''zh-CN,zh;q=0.9,en;q=0.8'',
        referer = js ''https://host''\<rparr>] \<and>
   map_option origin (refURL (js ''https://host/path/v.m3u8'') None) = Some (js ''https://host'')"
proof -
  let ?r1 = "\<lparr>req_url = js ''https://host/path/live.m3u8'', user_agent = js ''ua'',
        accept = js ''*/*'', accept_language = js ''fr-FR'',
        referer = js ''https://player.example/''\<rparr>"
  let ?r2 = "\<lparr>req_url = js ''https://host/path/v.m3u8'', user_agent = js ''ua'',
        accept = js ''*/*'', accept_language = js ''zh-CN,zh;q=0.9,en;q=0.8'',
        referer = js ''https://host''\<rparr>"
  have sent: "snd (handler refURL masterThenMedia 5 [js ''ua''] (js ''GET'')
       (js ''https%3A%2F%2Fhost%2Fpath%2Flive.m3u8'') clientHeaders) = [?r1, ?r2]"
    by (simp add: example_run)
  have mem: "?r2 \<in> set (tl [?r1, ?r2])" by simp
  from variant_fetch_headers [OF sent]
  have "\<forall>q \<in> set (tl [?r1, ?r2]).
          accept_language q = defaultAcceptLanguage \<and>
          (case refURL (req_url q) None of Some u \<Rightarrow> referer q = origin u | None \<Rightarrow> False)"
    by (rule conjunct1)
  from bspec [OF this mem]
  have "case refURL (req_url ?r2) None of Some u \<Rightarrow> referer ?r2 = origin u | None \<Rightarrow> False"
    by (rule conjunct2)
  then have "map_option origin (refURL (js ''https://host/path/v.m3u8'') None) =
      Some (js ''https://host'')"
    by (cases "refURL (js ''https://host/path/v.m3u8'') None") simp_all
  with sent show ?thesis by (intro conjI)
qed

section \<open>Bodies that contain the master marker\<close>

text \<open>
  C7 as stated: a body that contains \<^verbatim>\<open>#EXT-X-STREAM-INF\<close> is treated as a master playlist
  whatever the content type, never as no playlist or as a media playlist. It is not. An
  HTML page that contains the marker, served as \<^verbatim>\<open>text/html\<close>, does not pass
  \<^verbatim>\<open>isM3u8Content\<close>, and the handler returns it unchanged. A variant body that contains the
  marker but does not pass \<^verbatim>\<open>isM3u8Content\<close> is rewritten by \<^verbatim>\<open>processMasterPlaylist\<close> as a
  media playlist: its marker line is kept and its URI line is proxied.
\<close>

theorem stream_inf_gate_counterexample:
  "includesStr (js ''<p>#EXT-X-STREAM-INF'') (js ''#EXT-X-STREAM-INF'') \<and>
   fst (handler refURL htmlWorld 5 [js ''ua''] (js ''GET'') (js ''https%3A%2F%2Fh%2Fp%2Fl'')
          (\<lambda>name. None)) =
     Passthrough (js ''<p>#EXT-X-STREAM-INF'') \<and>
   includesStr (js ''#EXT-X-STREAM-INF'' @ [10] @ js ''w'') (js ''#EXT-X-STREAM-INF'') \<and>
   fst (handler refURL masterThenBare 5 [js ''ua''] (js ''GET'') (js ''https%3A%2F%2Fh%2Fp%2Fl'')
          (\<lambda>name. None)) =
     Playlist (js ''#EXT-X-STREAM-INF'' @ [10] @ js ''/api/proxy/https%3A%2F%2Fh%2Fp%2Fw'')"
  by code_simp

text \<open>
  C7 as the code has it: \<^verbatim>\<open>processM3u8Content\<close> hands every body that contains
  \<^verbatim>\<open>#EXT-X-STREAM-INF\<close> to \<^verbatim>\<open>processMasterPlaylist\<close>, whatever the content type; but a fetched
  body reaches \<^verbatim>\<open>processM3u8Content\<close> only if \<^verbatim>\<open>isM3u8Content\<close> accepts it. Of a body fetched
  for the inbound target the handler makes a master playlist if \<^verbatim>\<open>isM3u8Content\<close> accepts it
  and returns it unchanged otherwise; a body fetched for a variant \<^verbatim>\<open>processMasterPlaylist\<close>
  resolves as a master playlist, one level deeper, if \<^verbatim>\<open>isM3u8Content\<close> accepts it and
  rewrites as a media playlist otherwise.
\<close>

theorem stream_inf_dispatch:
  assumes "includesStr content (js ''#EXT-X-STREAM-INF'')"
  shows "processM3u8Content U W url content depth maxRecursion agents sent =
           processMasterPlaylist U W url content depth maxRecursion agents sent \<and>
         (method \<noteq> js ''OPTIONS'' \<and> getTargetUrlFromPath path = Some url \<and>
          fetchContentWithType U W url reqHeaders agents [] =
            (Inr (content, contentType), sent0) \<longrightarrow>
            handler U W maxRecursion agents method path reqHeaders =
              (if isM3u8Content content contentType
               then (case processMasterPlaylist U W url content 0 maxRecursion agents sent0 of
                       (Inl e, sent') \<Rightarrow> (ServerError e, sent')
                     | (Inr processed, sent') \<Rightarrow> (Playlist processed, sent'))
               else (Passthrough content, sent0))) \<and>
         (\<not> maxRecursion < depth \<and> selectBestVariantUrl U src master = url \<and> url \<noteq> [] \<and>
          fetchContentWithType U W url (\<lambda>name. None) agents sent1 =
            (Inr (content, contentType), sent2) \<longrightarrow>
            processMasterPlaylist U W src master depth maxRecursion agents sent1 =
              (if isM3u8Content content contentType
               then processMasterPlaylist U W url content (depth + 1) maxRecursion agents sent2
               else (processMediaPlaylist U url content, sent2)))"
proof -
  have dispatch: "processM3u8Content U W u content d m a s =
      processMasterPlaylist U W u content d m a s" for u d m a s
    using assms by (simp del: processMasterPlaylist.simps)
  have h: "handler U W maxRecursion agents method path reqHeaders =
      (if isM3u8Content content contentType
       then (case processMasterPlaylist U W url content 0 maxRecursion agents sent0 of
               (Inl e, sent') \<Rightarrow> (ServerError e, sent')
             | (Inr processed, sent') \<Rightarrow> (Playlist processed, sent'))
       else (Passthrough content, sent0))"
    if "method \<noteq> js ''OPTIONS''" "getTargetUrlFromPath path = Some url"
      "fetchContentWithType U W url reqHeaders agents [] = (Inr (content, contentType), sent0)"
    using that dispatch
    by (simp add: handler_def del: processMasterPlaylist.simps processM3u8Content.simps)
  have m: "processMasterPlaylist U W src master depth maxRecursion agents sent1 =
      (if isM3u8Content content contentType
       then processMasterPlaylist U W url content (depth + 1) maxRecursion agents sent2
       else (processMediaPlaylist U url content, sent2))"
    if "\<not> maxRecursion < depth" "selectBestVariantUrl U src master = url" "url \<noteq> []"
      "fetchContentWithType U W url (\<lambda>name. None) agents sent1 =
         (Inr (content, contentType), sent2)"
    using that dispatch [of url "depth + 1" maxRecursion agents sent2]
    by (subst processMasterPlaylist.simps)
       (simp del: processMasterPlaylist.simps processM3u8Content.simps)
  from dispatch h m show ?thesis by blast
qed

theorem stream_inf_dispatch_witness:
  "includesStr (js ''#EXTM3U'' @ [10] @ js ''#EXT-X-STREAM-INF'') (js ''#EXT-X-STREAM-INF'') \<and>
   processM3u8Content refURL deadWorld (js ''https://h/p/l'')
       (js ''#EXTM3U'' @ [10] @ js ''#EXT-X-STREAM-INF'') 0 5 [] [] =
     processMasterPlaylist refURL deadWorld (js ''https://h/p/l'')
       (js ''#EXTM3U'' @ [10] @ js ''#EXT-X-STREAM-INF'') 0 5 [] []"
proof -
  have i: "includesStr (js ''#EXTM3U'' @ [10] @ js ''#EXT-X-STREAM-INF'')
     (js ''#EXT-X-STREAM-INF'')" by code_simp
  from stream_inf_dispatch [OF i, where U = refURL and W = deadWorld
      and url = "js ''https://h/p/l''" and depth = 0 and maxRecursion = 5
      and agents = "[]" and sent = "[]"]
  have "processM3u8Content refURL deadWorld (js ''https://h/p/l'')
       (js ''#EXTM3U'' @ [10] @ js ''#EXT-X-STREAM-INF'') 0 5 [] [] =
     processMasterPlaylist refURL deadWorld (js ''https://h/p/l'')
       (js ''#EXTM3U'' @ [10] @ js ''#EXT-X-STREAM-INF'') 0 5 [] []"
    by (rule conjunct1)
  with i show ?thesis by (intro conjI)
qed

section \<open>Resolution against a base\<close>




section \<open>The lines of a rewritten media playlist\<close>

lemma rewrite_proxied: "rewriteUrlToProxy t = Inr p \<Longrightarrow> proxiedFor t p"
  by (auto simp: rewriteUrlToProxy_def proxiedFor_def uri_roundtrip split: option.splits if_splits)







lemma mediaLines_covers:
  "mediaLines U baseUrl ls = Inr outs \<Longrightarrow> l \<in> set ls \<Longrightarrow> trim l \<noteq> [] \<Longrightarrow>
     \<exists>out\<in>set outs. mediaLine U baseUrl (trim l) = Inr out"
proof (induction ls arbitrary: outs)
  case Nil
  then show ?case by simp
next
  case (Cons x ls)
  show ?case
  proof (cases "trim x = []")
    case True
    then have "l \<noteq> x" using Cons.prems(3) by auto
    then have l: "l \<in> set ls" using Cons.prems(2) by simp
    then have "ls \<noteq> []" by auto
    then have "mediaLines U baseUrl ls = Inr outs"
      using Cons.prems(1) True by (simp add: Let_def)
    from Cons.IH [OF this l Cons.prems(3)] show ?thesis .
  next
    case False
    with Cons.prems(1) obtain o' os where
      o: "mediaLine U baseUrl (trim x) = Inr o'" "mediaLines U baseUrl ls = Inr os"
        "outs = o' # os"
      by (auto simp: Let_def split: sum.splits)
    show ?thesis
    proof (cases "l = x")
      case True
      then show ?thesis using o by auto
    next
      case ne: False
      then have "l \<in> set ls" using Cons.prems(2) by simp
      from Cons.IH [OF o(2) this Cons.prems(3)] show ?thesis using o(3) by auto
    qed
  qed
qed





section \<open>Rewriting a rewritten playlist\<close>

lemma encodeUnits_length: "encodeUnits u = Some e \<Longrightarrow> length u \<le> length e"
proof (induction u arbitrary: e rule: encodeUnits.induct)
  case 1
  then show ?case by simp
next
  case (2 c cs)
  have three: "3 \<le> length (concat (map pctEncode (utf8Encode cp)))" for cp
    by (simp add: utf8Encode_def pctEncode_def)
  have six: "65536 \<le> cp \<Longrightarrow> 6 \<le> length (concat (map pctEncode (utf8Encode cp)))" for cp
    by (simp add: utf8Encode_def pctEncode_def)
  show ?case
  proof (cases "isUnescaped c")
    case True
    then show ?thesis using "2.prems" "2.IH"(1) by auto
  next
    case unesc: False
    show ?thesis
    proof (cases "\<not> isLeadSurrogate c \<and> \<not> isTrailSurrogate c")
      case True
      with unesc "2.prems" obtain e' where
        e': "encodeUnits cs = Some e'" "e = concat (map pctEncode (utf8Encode c)) @ e'"
        by auto
      show ?thesis
        using "2.IH"(2) [OF unesc True e'(1)] e'(2) three [of c] by simp
    next
      case False
      with unesc "2.prems" obtain d ds e' where
        d: "cs = d # ds" "isLeadSurrogate c" "isTrailSurrogate d" "\<not> isTrailSurrogate c"
        and e': "encodeUnits ds = Some e'"
          "e = concat (map pctEncode (utf8Encode (surrogatePair c d))) @ e'"
        by (auto split: list.splits if_splits)
      show ?thesis
        using "2.IH"(3) [OF unesc False d(4) d(1) _ e'(1)] d(1,3) e'(2)
          three [of "surrogatePair c d"]
        by simp
    qed
  qed
qed

lemma encodeURIComponent_length: "encodeURIComponent a = Some e \<Longrightarrow> length a \<le> length e"
  using encodeUnits_length [of "map unat a"] by (auto simp: encodeURIComponent_def)

lemma pctEncode_visible: "x \<in> set (concat (map pctEncode bs)) \<Longrightarrow> 33 \<le> x"
  by (induction bs) (auto simp: pctEncode_def hexDigit_def)

lemma encodeUnits_visible: "encodeUnits u = Some e \<Longrightarrow> x \<in> set e \<Longrightarrow> 33 \<le> x"
proof (induction u arbitrary: e rule: encodeUnits.induct)
  case 1
  then show ?case by simp
next
  case (2 c cs)
  show ?case
  proof (cases "isUnescaped c")
    case True
    with "2.prems" obtain e' where e': "encodeUnits cs = Some e'" "e = c # e'"
      by auto
    have "33 \<le> c" using True by (auto simp: isUnescaped_def)
    then show ?thesis
      using "2.IH"(1) [OF True e'(1)] "2.prems"(2) e'(2) by auto
  next
    case unesc: False
    show ?thesis
    proof (cases "\<not> isLeadSurrogate c \<and> \<not> isTrailSurrogate c")
      case True
      with unesc "2.prems" obtain e' where
        e': "encodeUnits cs = Some e'" "e = concat (map pctEncode (utf8Encode c)) @ e'"
        by auto
      show ?thesis
        using "2.IH"(2) [OF unesc True e'(1)] "2.prems"(2) e'(2) pctEncode_visible [of x]
        by auto
    next
      case False
      with unesc "2.prems" obtain d ds e' where
        d: "cs = d # ds" "isLeadSurrogate c" "isTrailSurrogate d" "\<not> isTrailSurrogate c"
        and e': "encodeUnits ds = Some e'"
          "e = concat (map pctEncode (utf8Encode (surrogatePair c d))) @ e'"
        by (auto split: list.splits if_splits)
      show ?thesis
        using "2.IH"(3) [OF unesc False d(4) d(1) _ e'(1)] d(1,3) "2.prems"(2) e'(2)
          pctEncode_visible [of x]
        by auto
    qed
  qed
qed

lemma visible_not_space:
  "33 \<le> x \<Longrightarrow> x < 128 \<Longrightarrow> \<not> isWhiteSpace (of_nat x :: code_unit)"
proof -
  assume x: "33 \<le> x" "x < 128"
  then have u: "unat (of_nat x :: code_unit) = x" by (simp add: unat_of_nat_unit)
  show ?thesis
    unfolding isWhiteSpace_def word_le_nat_alt word_unat_eq_iff u using x by simp
qed

lemma encoded_not_space:
  assumes "encodeURIComponent a = Some e" "c \<in> set e"
  shows "\<not> isWhiteSpace c"
proof -
  from assms(1) obtain en where en: "encodeUnits (map unat a) = Some en" "e = map of_nat en"
    by (auto simp: encodeURIComponent_def)
  from assms(2) en(2) obtain x where x: "x \<in> set en" "c = of_nat x" by auto
  have "33 \<le> x" by (rule encodeUnits_visible [OF en(1) x(1)])
  moreover have "x < 128"
    using encodeUnits_ascii [OF _ en(1) x(1)] unat_unit_less by simp
  ultimately show ?thesis using visible_not_space x(2) by simp
qed

lemma trim_id:
  assumes "s \<noteq> []" "\<not> isWhiteSpace (hd s)" "\<not> isWhiteSpace (last s)"
  shows "trim s = s"
proof -
  have 1: "dropWhile isWhiteSpace s = s"
    using assms(1,2) by (cases s) auto
  obtain x xs where r: "rev s = x # xs" using assms(1) by (cases "rev s") auto
  then have "x = last s" using hd_rev [of s] assms(1) by simp
  then have "dropWhile isWhiteSpace (x # xs) = x # xs"
    using assms(3) by simp
  then have 2: "dropWhile isWhiteSpace (rev s) = rev s"
    by (simp only: r)
  show ?thesis by (simp add: trim_def 1 2)
qed

lemma proxied_line_trim:
  assumes "encodeURIComponent a = Some e"
  shows "trim (js ''/api/proxy/'' @ e) = js ''/api/proxy/'' @ e"
proof (rule trim_id)
  show "js ''/api/proxy/'' @ e \<noteq> []" by (simp add: js_def)
  show "\<not> isWhiteSpace (hd (js ''/api/proxy/'' @ e))"
    by (simp add: js_def isWhiteSpace_def)
  show "\<not> isWhiteSpace (last (js ''/api/proxy/'' @ e))"
  proof (cases "e = []")
    case True
    then show ?thesis by (simp add: js_def isWhiteSpace_def)
  next
    case False
    then show ?thesis using encoded_not_space [OF assms, of "last e"] by simp
  qed
qed

lemma proxied_line_media:
  "mediaLine U baseUrl (js ''/api/proxy/'' @ e) =
     rewriteUrlToProxy (resolveUrl U baseUrl (js ''/api/proxy/'' @ e))"
  by (simp add: mediaLine_def startsWith_def js_def)

lemma indexOf_lower: "- 1 \<le> indexOf s p"
  by (induction s) (auto simp: Let_def)

lemma getBaseUrl_nonempty: "url \<noteq> [] \<Longrightarrow> getBaseUrl U url \<noteq> []"
proof -
  assume url: "url \<noteq> []"
  have sub: "substring url 0 (k + 1) \<noteq> []" if "1 < k" for k
    using that url by (cases url) (auto simp: substring_def Let_def)
  show ?thesis
    using url indexOf_lower [of url "js ''://''"] sub
    by (auto simp: getBaseUrl_def Let_def js_def split: option.splits)
qed

text \<open>
  C8 as stated: a second pass of \<^verbatim>\<open>processMediaPlaylist\<close> over its own output leaves the URL
  embedded in each proxied line unchanged. It does not: the line for the segment \<^verbatim>\<open>s\<close> embeds
  \<^verbatim>\<open>https://h/p/s\<close> after the first pass, and after the second pass it embeds
  \<^verbatim>\<open>https://h/api/proxy/https%3A%2F%2Fh%2Fp%2Fs\<close>, the proxy path resolved
  against the origin of the source; the percent signs are encoded a second time.
\<close>

theorem double_encoding_counterexample:
  "processMediaPlaylist refURL (js ''https://h/p/l'') (js ''s'') =
     Inr (js ''/api/proxy/https%3A%2F%2Fh%2Fp%2Fs'') \<and>
   decodeURIComponent (js ''https%3A%2F%2Fh%2Fp%2Fs'') = Some (js ''https://h/p/s'') \<and>
   processMediaPlaylist refURL (js ''https://h/p/l'') (js ''/api/proxy/https%3A%2F%2Fh%2Fp%2Fs'') =
     Inr (js ''/api/proxy/https%3A%2F%2Fh%2Fapi%2Fproxy%2Fhttps%253A%252F%252Fh%252Fp%252Fs'') \<and>
   decodeURIComponent (js ''https%3A%2F%2Fh%2Fapi%2Fproxy%2Fhttps%253A%252F%252Fh%252Fp%252Fs'') =
     Some (js ''https://h/api/proxy/https%3A%2F%2Fh%2Fp%2Fs'') \<and>
   js ''https://h/api/proxy/https%3A%2F%2Fh%2Fp%2Fs'' \<noteq> js ''https://h/p/s''"
  by code_simp

text \<open>
  C8 as the code has it: \<^verbatim>\<open>processMediaPlaylist\<close> treats a line that is already a proxy
  path, \<^verbatim>\<open>/api/proxy/\<close> followed by \<^verbatim>\<open>encodeURIComponent(a)\<close>, as any other reference: the
  output holds the proxy path of \<^verbatim>\<open>resolveUrl(base, line)\<close>. Whenever the platform resolves
  the line to a URL that ends in the line itself (the URL Standard resolves such an
  absolute path to the origin of the base followed by the path), the URL embedded after
  the second pass is that URL and differs from \<open>a\<close>.
\<close>

theorem second_pass_nests:
  assumes "processMediaPlaylist U url content = Inr out"
    and "l \<in> set (split 10 content)"
    and "l = js ''/api/proxy/'' @ e"
    and "encodeURIComponent a = Some e"
  shows "\<exists>outs. out = join [10] outs \<and>
           (\<exists>line \<in> set outs. proxiedFor (resolveUrl U (getBaseUrl U url) l) line) \<and>
           (\<forall>v og. url \<noteq> [] \<and> U l (Some (getBaseUrl U url)) = Some v \<and> href v = og @ l \<longrightarrow>
              resolveUrl U (getBaseUrl U url) l = og @ l \<and> og @ l \<noteq> a)"
proof -
  from assms(1) obtain outs where
    outs: "mediaLines U (getBaseUrl U url) (split 10 content) = Inr outs"
      "out = join [10] outs"
    by (auto simp: processMediaPlaylist_def Let_def split: sum.splits)
  have tr: "trim l = l"
    unfolding assms(3) by (rule proxied_line_trim [OF assms(4)])
  have ne: "l \<noteq> []" by (simp add: assms(3) js_def)
  from mediaLines_covers [OF outs(1) assms(2)] tr ne obtain line where
    line: "line \<in> set outs" "mediaLine U (getBaseUrl U url) l = Inr line"
    by auto
  have "rewriteUrlToProxy (resolveUrl U (getBaseUrl U url) l) = Inr line"
    using line(2) proxied_line_media [of U "getBaseUrl U url" e] by (simp add: assms(3))
  then have 1: "proxiedFor (resolveUrl U (getBaseUrl U url) l) line"
    by (rule rewrite_proxied)
  have 2: "resolveUrl U (getBaseUrl U url) l = og @ l \<and> og @ l \<noteq> a"
    if h: "url \<noteq> []" "U l (Some (getBaseUrl U url)) = Some v" "href v = og @ l" for v og
  proof
    have "\<not> matchHttp l"
      by (simp add: assms(3) matchHttp_def js_def asciiLower_def)
    then show "resolveUrl U (getBaseUrl U url) l = og @ l"
      using getBaseUrl_nonempty [OF h(1), of U] ne h(2,3) by (simp add: resolveUrl_def)
    have "length a \<le> length e" by (rule encodeURIComponent_length [OF assms(4)])
    then have "length a < length (og @ l)" by (simp add: assms(3) js_def)
    then show "og @ l \<noteq> a" by auto
  qed
  from outs(2) line(1) 1 2 show ?thesis by blast
qed

theorem second_pass_nests_witness:
  "processMediaPlaylist refURL (js ''https://h/p/l'') (js ''/api/proxy/https%3A%2F%2Fh%2Fp%2Fs'') =
     Inr (js ''/api/proxy/https%3A%2F%2Fh%2Fapi%2Fproxy%2Fhttps%253A%252F%252Fh%252Fp%252Fs'') \<and>
   js ''/api/proxy/'' @ js ''https%3A%2F%2Fh%2Fp%2Fs'' \<in>
     set (split 10 (js ''/api/proxy/https%3A%2F%2Fh%2Fp%2Fs'')) \<and>
   encodeURIComponent (js ''https://h/p/s'') = Some (js ''https%3A%2F%2Fh%2Fp%2Fs'') \<and>
   (\<exists>outs. js ''/api/proxy/https%3A%2F%2Fh%2Fapi%2Fproxy%2Fhttps%253A%252F%252Fh%252Fp%252Fs'' =
             join [10] outs \<and>
      (\<exists>line \<in> set outs.
         proxiedFor (resolveUrl refURL (getBaseUrl refURL (js ''https://h/p/l''))
                       (js ''/api/proxy/'' @ js ''https%3A%2F%2Fh%2Fp%2Fs'')) line) \<and>
      (\<forall>v og. js ''https://h/p/l'' \<noteq> [] \<and>
           refURL (js ''/api/proxy/'' @ js ''https%3A%2F%2Fh%2Fp%2Fs'')
             (Some (getBaseUrl refURL (js ''https://h/p/l''))) = Some v \<and>
           href v = og @ js ''/api/proxy/'' @ js ''https%3A%2F%2Fh%2Fp%2Fs'' \<longrightarrow>
           resolveUrl refURL (getBaseUrl refURL (js ''https://h/p/l''))
             (js ''/api/proxy/'' @ js ''https%3A%2F%2Fh%2Fp%2Fs'') =
             og @ js ''/api/proxy/'' @ js ''https%3A%2F%2Fh%2Fp%2Fs'' \<and>
           og @ js ''/api/proxy/'' @ js ''https%3A%2F%2Fh%2Fp%2Fs'' \<noteq> js ''https://h/p/s''))"
proof -
  have p: "processMediaPlaylist refURL (js ''https://h/p/l'')
       (js ''/api/proxy/https%3A%2F%2Fh%2Fp%2Fs'') =
     Inr (js ''/api/proxy/https%3A%2F%2Fh%2Fapi%2Fproxy%2Fhttps%253A%252F%252Fh%252Fp%252Fs'')"
    by code_simp
  have l: "js ''/api/proxy/'' @ js ''https%3A%2F%2Fh%2Fp%2Fs'' \<in>
     set (split 10 (js ''/api/proxy/https%3A%2F%2Fh%2Fp%2Fs''))"
    by code_simp
  have e: "encodeURIComponent (js ''https://h/p/s'') = Some (js ''https%3A%2F%2Fh%2Fp%2Fs'')"
    by code_simp
  from second_pass_nests [OF p l refl e] p l e show ?thesis by (intro conjI)
qed

section \<open>The variant of the highest bandwidth\<close>












text \<open>
  \<^verbatim>\<open>parseInt\<close> rounds: \<open>2^53 + 1\<close> is read as \<open>2^53\<close>, so two variants with these bandwidths
  tie.
\<close>

lemma rounding_example: "parseInt (js ''9007199254740993'') = 9007199254740992"
proof -
  have b: "intBits 9007199254740993 = 54" by (simp add: intBits.simps)
  have d: "decimalValue (js ''9007199254740993'') = 9007199254740993"
    by (simp add: decimalValue_def js_def)
  show ?thesis by (simp add: parseInt_def d toNumber_def b)
qed




end
